(* ===== verification/Prelude.thy ===== *)
theory Prelude
  imports Main "HOL-Library.Word" "HOL-Library.Sublist"
begin

text \<open>
  Shared vocabulary of the reboot-to development: the machine types the Rust
  source uses (\<open>u16\<close> boot identifiers, \<open>usize\<close> list indices, \<open>i32\<close> exit codes),
  text as a list of bytes, the collection \<open>model_simps\<close> of rewrite rules that the
  component proofs share, and generic lemmas on lists and words.
\<close>

section \<open>Machine types and text\<close>

type_synonym u16 = "16 word"
type_synonym usize = "64 word"

text \<open>
  A Rust \<open>String\<close>/\<open>&str\<close> is a sequence of UTF-8 bytes; HOL's \<open>char\<close> is a byte,
  so a Rust string is modelled as a \<open>string\<close> holding its UTF-8 encoding.
\<close>

type_synonym bytes = string

named_theorems model_simps "rewrite rules shared by the component proofs"

abbreviation newline :: char where
  "newline \<equiv> CHR ''\<newline>''"

abbreviation tab :: char where
  "tab \<equiv> CHR 0x09"

section \<open>Generic lemmas\<close>

lemma take_drop_Suc_nth [model_simps]:
  "i < length t \<Longrightarrow> take (Suc k) (drop i t) = t ! i # take k (drop (Suc i) t)"
  by (simp add: Cons_nth_drop_Suc [symmetric])

lemma foldl_invariant:
  assumes "P a" and "\<And>a x. P a \<Longrightarrow> x \<in> set xs \<Longrightarrow> P (f a x)"
  shows "P (foldl f a xs)"
  using assms by (induction xs arbitrary: a) auto

lemma find_Some_nth:
  "find P xs = Some x \<Longrightarrow> \<exists>i < length xs. xs ! i = x \<and> P x \<and> (\<forall>j < i. \<not> P (xs ! j))"
  by (simp add: find_Some_iff) blast

lemma find_None_iff' [model_simps]:
  "find P xs = None \<longleftrightarrow> (\<forall>x \<in> set xs. \<not> P x)"
  by (induction xs) auto

lemma replicate_numeral [model_simps]:
  "replicate (numeral n) x = x # replicate (pred_numeral n) x"
  by (simp add: numeral_eq_Suc)

lemma of_nat_minus_one_word:
  "0 < n \<Longrightarrow> (of_nat (n - 1) :: 'a::len word) = of_nat n - 1"
  by (cases n) simp_all

lemma unat_of_nat_usize [model_simps]:
  "n < 2 ^ 64 \<Longrightarrow> unat (of_nat n :: usize) = n"
  by (simp add: unat_of_nat)

end
