(* ===== verification/RustStd.thy ===== *)
theory RustStd
  imports Prelude
begin

text \<open>
  The parts of the Rust standard library whose behaviour the program depends on,
  written from their documented semantics: \<open>u16::from_str\<close> (used by
  \<open>str::parse::<u16>\<close> in \<open>lookup\<close> and \<open>parse_boot_targets\<close>), the decimal
  \<open>Display\<close> of integers and the \<open>{:0>4}\<close> padding of \<open>format!\<close> (used by
  \<open>set_next_boot\<close> and \<open>print_list\<close>), \<open>str::starts_with\<close> (used by
  \<open>lookup\<close>), the width of a UTF-8 sequence from its first byte, and the
  saturating arithmetic of \<open>usize\<close>. Proved here: \<open>parse_u16\<close> against a
  declarative description of the accepted strings, and the round trip between
  printing and parsing of boot identifiers.
\<close>

section \<open>ASCII digits\<close>

definition is_ascii_digit :: "char \<Rightarrow> bool" where
  "is_ascii_digit c \<longleftrightarrow> (48::nat) \<le> of_char c \<and> of_char c \<le> (57::nat)"

definition digit_val :: "char \<Rightarrow> nat" where
  "digit_val c = of_char c - 48"

section \<open>\<open>u16::from_str\<close>\<close>

text \<open>
  \<open>from_str_radix\<close> for an unsigned type: a lone sign is an error, a leading
  \<open>+\<close> is skipped, \<open>-\<close> is an invalid digit; the empty string is an error; each
  digit is checked, then the accumulator is multiplied by the radix and the digit
  added, each with overflow checking.
\<close>

definition checked_mul_u16 :: "u16 \<Rightarrow> u16 \<Rightarrow> u16 option" where
  "checked_mul_u16 a b = (if unat a * unat b < 2 ^ 16 then Some (a * b) else None)"

definition checked_add_u16 :: "u16 \<Rightarrow> u16 \<Rightarrow> u16 option" where
  "checked_add_u16 a b = (if unat a + unat b < 2 ^ 16 then Some (a + b) else None)"

fun parse_digits_u16 :: "u16 \<Rightarrow> bytes \<Rightarrow> u16 option" where
  "parse_digits_u16 acc [] = Some acc"
| "parse_digits_u16 acc (c # cs) =
     (if is_ascii_digit c then
        (case checked_mul_u16 acc 10 of
           None \<Rightarrow> None
         | Some m \<Rightarrow>
             (case checked_add_u16 m (of_nat (digit_val c)) of
                None \<Rightarrow> None
              | Some a \<Rightarrow> parse_digits_u16 a cs))
      else None)"

definition parse_u16 :: "bytes \<Rightarrow> u16 option" where
  "parse_u16 s =
     (case s of
        [] \<Rightarrow> None
      | [c] \<Rightarrow> (if c = CHR ''+'' \<or> c = CHR ''-'' then None else parse_digits_u16 0 s)
      | c # rest \<Rightarrow> (if c = CHR ''+'' then parse_digits_u16 0 rest else parse_digits_u16 0 s))"

section \<open>Decimal printing and padding\<close>

text \<open>The digit \<open>d < 10\<close> is printed as the byte \<open>b'0' + d\<close>.\<close>

definition digit_char :: "nat \<Rightarrow> char" where
  "digit_char d = ''0123456789'' ! d"

fun dec_str :: "nat \<Rightarrow> bytes" where
  "dec_str n =
     (if n < 10 then [digit_char n] else dec_str (n div 10) @ [digit_char (n mod 10)])"

declare dec_str.simps [simp del]

definition int_str :: "int \<Rightarrow> bytes" where
  "int_str i = (if i < 0 then CHR ''-'' # dec_str (nat (- i)) else dec_str (nat i))"

text \<open>\<open>format!("{:0>w}", s)\<close>: right-aligned in a field of width \<open>w\<close>, filled with \<open>0\<close>.\<close>

definition pad_zero_left :: "nat \<Rightarrow> bytes \<Rightarrow> bytes" where
  "pad_zero_left w s = replicate (w - length s) (CHR ''0'') @ s"

section \<open>\<open>str::starts_with\<close>\<close>

text \<open>\<open>[u8]::starts_with\<close>: the needle is no longer than the haystack and equals its prefix.\<close>

definition starts_with :: "bytes \<Rightarrow> bytes \<Rightarrow> bool" where
  "starts_with hay needle \<longleftrightarrow> length needle \<le> length hay \<and> take (length needle) hay = needle"

section \<open>UTF-8 sequence width\<close>

text \<open>\<open>core::str::utf8_char_width\<close>: the length of the sequence a leading byte starts.\<close>

definition utf8_width :: "char \<Rightarrow> nat" where
  "utf8_width c =
     (let b = (of_char c :: nat) in
      if b < 0x80 then 1 else if 0xC2 \<le> b \<and> b < 0xE0 then 2
      else if 0xE0 \<le> b \<and> b < 0xF0 then 3 else if 0xF0 \<le> b \<and> b < 0xF5 then 4 else 0)"

section \<open>Saturating \<open>usize\<close> arithmetic\<close>

definition usize_max :: usize where
  "usize_max = - 1"

definition saturating_add :: "usize \<Rightarrow> usize \<Rightarrow> usize" where
  "saturating_add a b = (if unat a + unat b < 2 ^ 64 then a + b else usize_max)"

definition saturating_sub :: "usize \<Rightarrow> usize \<Rightarrow> usize" where
  "saturating_sub a b = (if b \<le> a then a - b else 0)"

section \<open>Lemmas: digits, parsing and printing\<close>

text \<open>
  \<open>dec_acc a ds\<close> is the value of the digit string \<open>ds\<close> read after the
  accumulated value \<open>a\<close>; \<open>parse_u16\<close> is characterised by it.
\<close>

definition dec_acc :: "nat \<Rightarrow> bytes \<Rightarrow> nat" where
  "dec_acc a cs = foldl (\<lambda>a c. 10 * a + digit_val c) a cs"

lemma dec_acc_simps [simp]:
  "dec_acc a [] = a"
  "dec_acc a (c # cs) = dec_acc (10 * a + digit_val c) cs"
  by (simp_all add: dec_acc_def)

lemma dec_acc_ge: "a \<le> dec_acc a cs"
proof (induction cs arbitrary: a)
  case Nil then show ?case by simp
next
  case (Cons c cs)
  have "a \<le> 10 * a + digit_val c" by simp
  also have "\<dots> \<le> dec_acc (10 * a + digit_val c) cs" by (rule Cons.IH)
  finally show ?case by simp
qed

lemma digit_val_lt: "is_ascii_digit c \<Longrightarrow> digit_val c < 10"
  unfolding is_ascii_digit_def digit_val_def by linarith

lemma parse_digits_u16_eq:
  "parse_digits_u16 acc cs =
     (if list_all is_ascii_digit cs \<and> dec_acc (unat acc) cs < 2 ^ 16
      then Some (of_nat (dec_acc (unat acc) cs)) else None)"
proof (induction cs arbitrary: acc)
  case Nil
  have "unat acc < 2 ^ 16" using unsigned_less [of acc, where ?'a = nat] by simp
  then show ?case by simp
next
  case (Cons c cs)
  show ?case
  proof (cases "is_ascii_digit c")
    case False
    then show ?thesis by simp
  next
    case dig: True
    let ?a = "10 * unat acc + digit_val c"
    have d: "digit_val c < 10" using dig by (rule digit_val_lt)
    have ge: "?a \<le> dec_acc ?a cs" by (rule dec_acc_ge)
    show ?thesis
    proof (cases "?a < 2 ^ 16")
      case True
      then have m: "unat acc * unat (10::u16) < 2 ^ 16" by simp
      have um: "unat (acc * 10) = unat acc * 10"
        using m by (simp add: unat_mult_lem [THEN iffD1])
      have ud: "unat (of_nat (digit_val c) :: u16) = digit_val c"
        using d by (simp add: unat_of_nat)
      have add: "unat (acc * 10) + unat (of_nat (digit_val c) :: u16) < 2 ^ 16"
        using True um ud by simp
      have ua: "unat (acc * 10 + of_nat (digit_val c)) = ?a"
        using add um ud by (simp add: unat_add_lem [THEN iffD1])
      show ?thesis
        using dig m add ua Cons.IH [of "acc * 10 + of_nat (digit_val c)"]
        by (simp add: checked_mul_u16_def checked_add_u16_def)
    next
      case False
      then have "\<not> dec_acc ?a cs < 2 ^ 16" using ge by simp
      moreover have "parse_digits_u16 acc (c # cs) = None"
      proof (cases "unat acc * unat (10::u16) < 2 ^ 16")
        case True
        have um: "unat (acc * 10) = unat acc * 10"
          using True by (simp add: unat_mult_lem [THEN iffD1])
        have ud: "unat (of_nat (digit_val c) :: u16) = digit_val c"
          using d by (simp add: unat_of_nat)
        have "\<not> unat (acc * 10) + unat (of_nat (digit_val c) :: u16) < 2 ^ 16"
          using False um ud by simp
        then show ?thesis using dig True by (simp add: checked_mul_u16_def checked_add_u16_def)
      next
        case False
        then show ?thesis using dig by (simp add: checked_mul_u16_def)
      qed
      ultimately show ?thesis by simp
    qed
  qed
qed
lemma digit_char_props: "d < 10 \<Longrightarrow> is_ascii_digit (digit_char d) \<and> digit_val (digit_char d) = d"
proof -
  assume "d < 10"
  then have "d \<in> {0, 1, 2, 3, 4, 5, 6, 7, 8, 9}" by auto
  then show ?thesis by (auto simp: digit_char_def is_ascii_digit_def digit_val_def)
qed

lemma dec_acc_append [simp]: "dec_acc a (xs @ ys) = dec_acc (dec_acc a xs) ys"
  by (simp add: dec_acc_def)

lemma dec_str_props: "list_all is_ascii_digit (dec_str n) \<and> dec_acc 0 (dec_str n) = n"
proof (induction n rule: dec_str.induct)
  case (1 n)
  show ?case
  proof (cases "n < 10")
    case True
    then show ?thesis using digit_char_props [of n] by (simp add: dec_str.simps [of n])
  next
    case False
    have "n mod 10 < 10" by simp
    then have "is_ascii_digit (digit_char (n mod 10)) \<and> digit_val (digit_char (n mod 10)) = n mod 10"
      by (rule digit_char_props)
    with False "1.IH" show ?thesis by (simp add: dec_str.simps [of n])
  qed
qed

lemma dec_str_not_Nil [simp]: "dec_str n \<noteq> []"
  by (simp add: dec_str.simps [of n])

lemma is_ascii_digit_sign: "\<not> is_ascii_digit (CHR ''+'')" "\<not> is_ascii_digit (CHR ''-'')"
  by (simp_all add: is_ascii_digit_def)

lemma parse_u16_digits:
  assumes "list_all is_ascii_digit s" and "s \<noteq> []"
  shows "parse_u16 s = parse_digits_u16 0 s"
proof (cases s)
  case Nil with assms show ?thesis by simp
next
  case (Cons c rest)
  with assms have "c \<noteq> CHR ''+'' \<and> c \<noteq> CHR ''-''" using is_ascii_digit_sign by auto
  with Cons show ?thesis by (cases rest) (simp_all add: parse_u16_def)
qed

lemma dec_acc_zeros [simp]: "dec_acc 0 (replicate k (CHR ''0'')) = 0"
  by (induction k) (simp_all add: dec_acc_def digit_val_def)

lemma parse_u16_padded_dec_str:
  "parse_u16 (pad_zero_left w (dec_str n)) = (if n < 2 ^ 16 then Some (of_nat n) else None)"
proof -
  let ?s = "pad_zero_left w (dec_str n)"
  have zero: "is_ascii_digit (CHR ''0'')" by (simp add: is_ascii_digit_def)
  have digits: "list_all is_ascii_digit ?s"
    using dec_str_props [of n] zero by (auto simp: pad_zero_left_def list_all_iff)
  have val: "dec_acc 0 ?s = n"
    using dec_str_props [of n] by (simp add: pad_zero_left_def)
  have "?s \<noteq> []" by (simp add: pad_zero_left_def)
  with digits have "parse_u16 ?s = parse_digits_u16 0 ?s" by (rule parse_u16_digits)
  with digits val show ?thesis by (simp add: parse_digits_u16_eq)
qed

lemma parse_u16_Some_iff:
  "parse_u16 s = Some n \<longleftrightarrow>
     (\<exists>ds. (s = ds \<or> s = CHR ''+'' # ds) \<and> ds \<noteq> [] \<and> list_all is_ascii_digit ds \<and>
           dec_acc 0 ds < 2 ^ 16 \<and> n = of_nat (dec_acc 0 ds))"
proof (cases s)
  case Nil then show ?thesis by (simp add: parse_u16_def)
next
  case (Cons c rest)
  show ?thesis
  proof (cases rest)
    case Nil
    with Cons show ?thesis using is_ascii_digit_sign
      by (auto simp: parse_u16_def parse_digits_u16_eq)
  next
    case (Cons d rest')
    with \<open>s = c # rest\<close> show ?thesis using is_ascii_digit_sign
      by (auto simp: parse_u16_def parse_digits_u16_eq)
  qed
qed

lemma starts_with_prefix: "starts_with hay needle \<longleftrightarrow> prefix needle hay"
  by (auto simp: starts_with_def prefix_def) (metis append_take_drop_id)

end
