(* ===== verification/Regex.thy ===== *)
theory Regex
  imports RustStd
begin

text \<open>
  The fragment of the \<open>regex\<close> crate that \<open>parse_boot_targets\<close> uses
  (\<open>src/src/main.rs\<close>, lines 126-128, 138 and 147): multi-line anchors \<open>^\<close> and
  \<open>$\<close>, the classes \<open>[a-zA-Z]\<close>, \<open>[0-9]\<close>, \<open>\s\<close> (Unicode White_Space) and
  \<open>.\<close> (any code point but a line feed), literal bytes, greedy and lazy
  repetition of a class, capture groups and concatenation; the leftmost-first
  search (\<open>find_at\<close>); the iterator built on it is in \<open>RegexIter\<close>.

  The crate promises the match a backtracking engine would report. The model
  therefore lists every way a regex matches at a position, in the engine's
  priority order (\<open>mt\<close>); the first element is the match the crate reports.
  Text is UTF-8 bytes; the classes consume whole code points.
\<close>

section \<open>Character classes\<close>

datatype cls = Letter | Digit | Space | AnyNoNL | Lit char

definition is_ascii_alpha :: "char \<Rightarrow> bool" where
  "is_ascii_alpha c \<longleftrightarrow>
     (let b = (of_char c :: nat) in (65 \<le> b \<and> b \<le> 90) \<or> (97 \<le> b \<and> b \<le> 122))"

text \<open>
  The bytes of a leading White_Space code point, 0 when there is none:
  U+0009..U+000D, U+0020, U+0085, U+00A0, U+1680, U+2000..U+200A, U+2028, U+2029,
  U+202F, U+205F and U+3000, in their UTF-8 encodings.
\<close>

fun ws_len :: "bytes \<Rightarrow> nat" where
  "ws_len [] = 0"
| "ws_len (c # cs) =
     (let b = (of_char c :: nat) in
      if (9 \<le> b \<and> b \<le> 13) \<or> b = 32 then 1
      else if b = 0xC2 then
        (case cs of d # _ \<Rightarrow> (if of_char d = (0x85::nat) \<or> of_char d = (0xA0::nat) then 2 else 0)
         | [] \<Rightarrow> 0)
      else if b = 0xE1 then
        (case cs of d # e # _ \<Rightarrow>
           (if of_char d = (0x9A::nat) \<and> of_char e = (0x80::nat) then 3 else 0)
         | _ \<Rightarrow> 0)
      else if b = 0xE2 then
        (case cs of d # e # _ \<Rightarrow>
           (let d' = (of_char d :: nat); e' = (of_char e :: nat) in
            if (d' = 0x80 \<and> ((0x80 \<le> e' \<and> e' \<le> 0x8A) \<or> e' = 0xA8 \<or> e' = 0xA9 \<or> e' = 0xAF))
               \<or> (d' = 0x81 \<and> e' = 0x9F) then 3 else 0)
         | _ \<Rightarrow> 0)
      else if b = 0xE3 then
        (case cs of d # e # _ \<Rightarrow>
           (if of_char d = (0x80::nat) \<and> of_char e = (0x80::nat) then 3 else 0)
         | _ \<Rightarrow> 0)
      else 0)"

text \<open>
  The bytes one code point of the class takes at the front of the text, 0 when
  the class does not match there. \<open>.\<close> takes the whole UTF-8 sequence its first
  byte announces (at least one byte, at most what is left).
\<close>

fun cls_len :: "cls \<Rightarrow> bytes \<Rightarrow> nat" where
  "cls_len _ [] = 0"
| "cls_len Letter (c # _) = (if is_ascii_alpha c then 1 else 0)"
| "cls_len Digit (c # _) = (if is_ascii_digit c then 1 else 0)"
| "cls_len (Lit d) (c # _) = (if c = d then 1 else 0)"
| "cls_len Space cs = ws_len cs"
| "cls_len AnyNoNL (c # cs) =
     (if c = newline then 0 else min (max 1 (utf8_width c)) (Suc (length cs)))"

section \<open>Regular expressions and their matches\<close>

text \<open>
  \<open>Rep c m g\<close> is \<open>c{m,}\<close>, greedy when \<open>g\<close> and lazy otherwise; \<open>Group n r\<close>
  is the \<open>n\<close>-th capture group. Captures map a group number to its span.
\<close>

datatype regex =
    LineStart
  | LineEnd
  | One cls
  | Rep cls nat bool
  | Group nat regex
  | Cat regex regex

type_synonym caps = "nat \<Rightarrow> (nat \<times> nat) option"

text \<open>The ends of successive repetitions of a class from position \<open>i\<close>.\<close>

function reps :: "cls \<Rightarrow> bytes \<Rightarrow> nat \<Rightarrow> nat list" where
  "reps c t i =
     (let k = cls_len c (drop i t) in
      if k = 0 \<or> length t < i + k then [] else (i + k) # reps c t (i + k))"
  by pat_completeness auto
termination
  by (relation "measure (\<lambda>(c, t, i). length t - i)") auto

declare reps.simps [simp del]

text \<open>All matches of a regex at position \<open>i\<close>, in backtracking priority order.\<close>

fun mt :: "regex \<Rightarrow> bytes \<Rightarrow> nat \<Rightarrow> caps \<Rightarrow> (nat \<times> caps) list" where
  "mt LineStart t i cs =
     (if i = 0 \<or> (i \<le> length t \<and> t ! (i - 1) = newline) then [(i, cs)] else [])"
| "mt LineEnd t i cs =
     (if i = length t \<or> (i < length t \<and> t ! i = newline) then [(i, cs)] else [])"
| "mt (One c) t i cs =
     (let k = cls_len c (drop i t) in if k = 0 then [] else [(i + k, cs)])"
| "mt (Rep c m g) t i cs =
     map (\<lambda>j. (j, cs)) (let js = drop m (i # reps c t i) in if g then rev js else js)"
| "mt (Group n r) t i cs = map (\<lambda>(j, cs'). (j, cs'(n \<mapsto> (i, j)))) (mt r t i cs)"
| "mt (Cat r1 r2) t i cs = concat (map (\<lambda>(j, cs'). mt r2 t j cs') (mt r1 t i cs))"

section \<open>Search and iteration\<close>

text \<open>Leftmost-first search: the first start position with a match, and its best match.\<close>

function find_at :: "regex \<Rightarrow> bytes \<Rightarrow> nat \<Rightarrow> (nat \<times> nat \<times> caps) option" where
  "find_at r t i =
     (if length t < i then None
      else (case mt r t i Map.empty of
              [] \<Rightarrow> find_at r t (Suc i)
            | (j, cs) # _ \<Rightarrow> Some (i, j, cs)))"
  by pat_completeness auto
termination
  by (relation "measure (\<lambda>(r, t, i). Suc (length t) - i)") auto

declare find_at.simps [simp del]

section \<open>Lemmas\<close>

text \<open>Matches stay inside the text, and the search finds the leftmost match.\<close>

lemma ws_len_le: "ws_len cs \<le> length cs"
  by (cases cs rule: ws_len.cases) (auto simp: Let_def split: list.split)

lemma cls_len_le: "cls_len c cs \<le> length cs"
proof (cases cs)
  case Nil
  then show ?thesis by simp
next
  case (Cons x xs)
  then show ?thesis using ws_len_le [of "x # xs"] by (cases c) (simp_all del: ws_len.simps)
qed

lemma reps_bounds: "j \<in> set (reps c t i) \<Longrightarrow> i < j \<and> j \<le> length t"
proof (induction c t i rule: reps.induct)
  case (1 c t i)
  then show ?case
    by (subst (asm) reps.simps) (fastforce simp: Let_def split: if_splits)
qed

lemma mt_bounds:
  "i \<le> length t \<Longrightarrow> (j, cs') \<in> set (mt r t i cs) \<Longrightarrow> i \<le> j \<and> j \<le> length t"
proof (induction r arbitrary: i cs j cs')
  case (One c)
  then show ?case
    using cls_len_le [of c "drop i t"] by (auto simp: Let_def split: if_splits)
next
  case (Rep c m g)
  have "j \<in> set (drop m (i # reps c t i))"
    using Rep.prems(2) by (auto simp: Let_def split: if_splits)
  then have "j \<in> set (i # reps c t i)" by (rule in_set_dropD)
  with Rep.prems(1) show ?case by (auto dest: reps_bounds)
next
  case (Group n r)
  from Group.prems(2) obtain cs0 where "(j, cs0) \<in> set (mt r t i cs)" by auto
  with Group.IH Group.prems(1) show ?case by blast
next
  case (Cat r1 r2)
  from Cat.prems(2) obtain j1 cs1 where m1: "(j1, cs1) \<in> set (mt r1 t i cs)" and m2: "(j, cs') \<in> set (mt r2 t j1 cs1)"
    by auto
  from Cat.IH(1) [OF Cat.prems(1) m1] have "i \<le> j1 \<and> j1 \<le> length t" .
  with Cat.IH(2) [OF _ m2] show ?case by simp
qed (auto split: if_splits)

lemma find_at_Some:
  "find_at r t i = Some (s, e, cs) \<Longrightarrow>
     i \<le> s \<and> s \<le> length t \<and> hd (mt r t s Map.empty) = (e, cs) \<and> mt r t s Map.empty \<noteq> [] \<and>
     (\<forall>k. i \<le> k \<and> k < s \<longrightarrow> mt r t k Map.empty = [])"
proof (induction r t i rule: find_at.induct)
  case (1 r t i)
  show ?case
  proof (cases "mt r t i Map.empty")
    case Nil
    with "1.prems" have "\<not> length t < i" "find_at r t (Suc i) = Some (s, e, cs)"
      by (subst (asm) find_at.simps; simp split: if_splits)+
    with "1.IH" Nil show ?thesis by (metis Suc_leD le_less_Suc_eq not_le)
  next
    case (Cons a l)
    with "1.prems" show ?thesis
      by (subst (asm) find_at.simps) (auto split: if_splits)
  qed
qed

lemma find_at_None:
  "find_at r t i = None \<Longrightarrow> i \<le> k \<Longrightarrow> k \<le> length t \<Longrightarrow> mt r t k Map.empty = []"
proof (induction r t i rule: find_at.induct)
  case (1 r t i)
  show ?case
  proof (cases "k = i")
    case True
    with "1.prems" show ?thesis
      by (subst (asm) find_at.simps) (auto split: if_splits list.splits)
  next
    case False
    with "1.prems" have "\<not> length t < i" "mt r t i Map.empty = []" "find_at r t (Suc i) = None"
      by (subst (asm) find_at.simps; auto split: if_splits list.splits)+
    with "1.IH" "1.prems" False show ?thesis by simp
  qed
qed

lemma find_at_span:
  "find_at r t i = Some (s, e, cs) \<Longrightarrow> i \<le> s \<and> s \<le> e \<and> e \<le> length t"
proof -
  assume f: "find_at r t i = Some (s, e, cs)"
  then have s: "i \<le> s" "s \<le> length t" "hd (mt r t s Map.empty) = (e, cs)" "mt r t s Map.empty \<noteq> []"
    using find_at_Some by blast+
  then have "(e, cs) \<in> set (mt r t s Map.empty)" by (metis list.set_sel(1))
  then have "s \<le> e \<and> e \<le> length t" using mt_bounds [OF s(2)] by blast
  with s show ?thesis by simp
qed

section \<open>Claims\<close>

text \<open>C24: The search reports a match starting at s with end e and captures cs exactly when s is
  the leftmost position from i on where the regex matches and (e, cs) is the match the
  backtracking engine prefers there (leftmost-first semantics).\<close>

lemma find_at_leftmost_first:
  "find_at r t i = Some (s, e, cs) \<longleftrightarrow>
     i \<le> s \<and> s \<le> length t \<and> (\<exists>l. mt r t s Map.empty = (e, cs) # l) \<and>
     (\<forall>k. i \<le> k \<and> k < s \<longrightarrow> mt r t k Map.empty = [])"
proof
  assume "find_at r t i = Some (s, e, cs)"
  then show "i \<le> s \<and> s \<le> length t \<and> (\<exists>l. mt r t s Map.empty = (e, cs) # l) \<and>
     (\<forall>k. i \<le> k \<and> k < s \<longrightarrow> mt r t k Map.empty = [])"
    using find_at_Some by (metis list.collapse)
next
  assume a: "i \<le> s \<and> s \<le> length t \<and> (\<exists>l. mt r t s Map.empty = (e, cs) # l) \<and>
     (\<forall>k. i \<le> k \<and> k < s \<longrightarrow> mt r t k Map.empty = [])"
  show "find_at r t i = Some (s, e, cs)"
  proof (cases "find_at r t i")
    case None
    have "mt r t s Map.empty = []" using a by (intro find_at_None [OF None]) simp_all
    with a show ?thesis by simp
  next
    case (Some x)
    then obtain s' e' cs' where f: "find_at r t i = Some (s', e', cs')" by (cases x) auto
    then have b: "i \<le> s'" "hd (mt r t s' Map.empty) = (e', cs')" "mt r t s' Map.empty \<noteq> []"
      "\<forall>k. i \<le> k \<and> k < s' \<longrightarrow> mt r t k Map.empty = []"
      using find_at_Some by blast+
    obtain l where l: "mt r t s Map.empty = (e, cs) # l" using a by blast
    have "\<not> s' < s" using a b(1,3) by blast
    moreover have "\<not> s < s'" using a b(4) l by auto
    ultimately have "s' = s" by simp
    with b(2) l have "(e', cs') = (e, cs)" by simp
    with f \<open>s' = s\<close> show ?thesis by simp
  qed
qed

lemma find_at_leftmost_first_witness:
  "find_at (One (Lit (CHR ''x''))) ''ax'' 0 = Some (1, 2, Map.empty)"
proof -
  have "\<forall>k. 0 \<le> k \<and> k < (1::nat) \<longrightarrow> mt (One (Lit (CHR ''x''))) ''ax'' k Map.empty = []"
    by simp
  moreover have "mt (One (Lit (CHR ''x''))) ''ax'' 1 Map.empty = [(2, Map.empty)]"
    by simp
  ultimately show ?thesis
    using find_at_leftmost_first [of "One (Lit (CHR ''x''))" "''ax''" 0 1 2 Map.empty] by simp
qed

end
