(* ===== verification/RegexIter.thy ===== *)
theory RegexIter
  imports Regex
begin

text \<open>
  \<open>Regex::captures_iter\<close> as \<open>parse_boot_targets\<close> calls it (\<open>src/src/main.rs\<close>,
  lines 138 and 147): successive non-overlapping matches, each search starting
  where the last match ended, one byte further after an empty match. The loop
  \<open>captures_step\<close> has no guard of its own: it stops exactly when the search from
  the current position finds nothing, and its termination is a consequence of
  the search never reporting a match before its start position
  (\<open>find_at_span\<close> of \<open>Regex\<close>). Group 0 is the whole match.
\<close>

section \<open>The iterator\<close>

definition next_pos :: "nat \<Rightarrow> nat \<Rightarrow> nat" where
  "next_pos s e = (if s < e then e else Suc e)"

function captures_step :: "regex \<Rightarrow> bytes \<Rightarrow> nat \<Rightarrow> caps list" where
  "captures_step r t i =
     (case find_at r t i of
        None \<Rightarrow> []
      | Some (s, e, cs) \<Rightarrow> cs(0 \<mapsto> (s, e)) # captures_step r t (next_pos s e))"
  by pat_completeness auto
termination
proof (relation "measure (\<lambda>(r, t, i). Suc (length t) - i)")
  show "wf (measure (\<lambda>(r, t, i). Suc (length t) - i))" by simp
next
  fix r t i m s p e cs
  assume "find_at r t i = Some m" and "(s, p) = m" and "(e, cs) = p"
  then have "i \<le> s \<and> s \<le> e \<and> e \<le> length t" using find_at_span by blast
  then have "i < next_pos s e \<and> next_pos s e \<le> Suc (length t)" by (auto simp: next_pos_def)
  then show "((r, t, next_pos s e), r, t, i) \<in> measure (\<lambda>(r, t, i). Suc (length t) - i)" by auto
qed

declare captures_step.simps [simp del]

definition captures_iter :: "regex \<Rightarrow> bytes \<Rightarrow> caps list" where
  "captures_iter r t = captures_step r t 0"

text \<open>The text of group \<open>n\<close> of a match (\<open>Captures::extract\<close>).\<close>

definition group_str :: "bytes \<Rightarrow> caps \<Rightarrow> nat \<Rightarrow> bytes" where
  "group_str t cs n = (case cs n of None \<Rightarrow> [] | Some (s, e) \<Rightarrow> take (e - s) (drop s t))"

text \<open>The span of the whole match (group 0) of a match's captures.\<close>

definition span0 :: "caps \<Rightarrow> nat \<times> nat" where
  "span0 cs = (case cs 0 of Some se \<Rightarrow> se | None \<Rightarrow> (0, 0))"

section \<open>Lemmas\<close>

lemma find_at_next_pos:
  "find_at r t i = Some (s, e, cs) \<Longrightarrow> i < next_pos s e \<and> next_pos s e \<le> Suc (length t)"
  using find_at_span [of r t i s e cs] by (auto simp: next_pos_def)

lemma captures_step_None: "find_at r t i = None \<Longrightarrow> captures_step r t i = []"
  by (simp add: captures_step.simps)

lemma captures_step_Some:
  "find_at r t i = Some (s, e, cs) \<Longrightarrow> captures_step r t i = cs(0 \<mapsto> (s, e)) # captures_step r t (next_pos s e)"
  by (simp add: captures_step.simps)

text \<open>An element of the iteration from \<open>i\<close> is the first match found from \<open>i\<close> or comes
  from the iteration after it.\<close>

lemma captures_step_memE:
  assumes "x \<in> set (captures_step r t i)"
  obtains s e cs where "find_at r t i = Some (s, e, cs)"
    and "x = cs(0 \<mapsto> (s, e)) \<or> x \<in> set (captures_step r t (next_pos s e))"
proof (cases "find_at r t i")
  case None
  then show ?thesis using assms by (simp add: captures_step_None)
next
  case (Some m)
  then obtain s e cs where f: "find_at r t i = Some (s, e, cs)" by (cases m) auto
  then show ?thesis using that assms by (simp add: captures_step_Some)
qed

lemma captures_step_spans:
  "x \<in> set (captures_step r t i) \<Longrightarrow>
     x 0 = Some (span0 x) \<and> i \<le> fst (span0 x) \<and> fst (span0 x) \<le> snd (span0 x) \<and> snd (span0 x) \<le> length t"
proof (induction r t i rule: captures_step.induct)
  case (1 r t i)
  obtain s e cs where f: "find_at r t i = Some (s, e, cs)"
    and x: "x = cs(0 \<mapsto> (s, e)) \<or> x \<in> set (captures_step r t (next_pos s e))"
    using "1.prems" by (rule captures_step_memE)
  have sp: "i \<le> s \<and> s \<le> e \<and> e \<le> length t" using find_at_span [OF f] .
  have np: "i < next_pos s e" using find_at_next_pos [OF f] by simp
  from x show ?case
  proof
    assume "x = cs(0 \<mapsto> (s, e))"
    then show ?case using sp by (simp add: span0_def)
  next
    assume "x \<in> set (captures_step r t (next_pos s e))"
    then have "x 0 = Some (span0 x) \<and> next_pos s e \<le> fst (span0 x) \<and> fst (span0 x) \<le> snd (span0 x) \<and>
      snd (span0 x) \<le> length t" using "1.IH" [OF f refl refl] by blast
    then show ?case using np by (elim conjE) (intro conjI; linarith)
  qed
qed

lemma captures_step_ordered:
  "sorted_wrt (\<lambda>a b. snd (span0 a) \<le> fst (span0 b)) (captures_step r t i)"
proof (induction r t i rule: captures_step.induct)
  case (1 r t i)
  show ?case
  proof (cases "find_at r t i")
    case None
    then show ?thesis by (simp add: captures_step_None)
  next
    case (Some m)
    then obtain s e cs where f: "find_at r t i = Some (s, e, cs)" by (cases m) auto
    have later: "e \<le> fst (span0 y)" if "y \<in> set (captures_step r t (next_pos s e))" for y
      using captures_step_spans [OF that] by (simp add: next_pos_def split: if_splits)
    have "sorted_wrt (\<lambda>a b. snd (span0 a) \<le> fst (span0 b)) (captures_step r t (next_pos s e))"
      using "1.IH" [OF f refl refl] .
    then show ?thesis using later f by (simp add: captures_step_Some span0_def)
  qed
qed

lemma captures_step_length: "length (captures_step r t i) \<le> Suc (length t) - i"
proof (induction r t i rule: captures_step.induct)
  case (1 r t i)
  show ?case
  proof (cases "find_at r t i")
    case None
    then show ?thesis by (simp add: captures_step_None)
  next
    case (Some m)
    then obtain s e cs where f: "find_at r t i = Some (s, e, cs)" by (cases m) auto
    have np: "i < next_pos s e \<and> next_pos s e \<le> Suc (length t)" using find_at_next_pos [OF f] .
    have "length (captures_step r t (next_pos s e)) \<le> Suc (length t) - next_pos s e"
      using "1.IH" [OF f refl refl] .
    with np f show ?thesis by (simp add: captures_step_Some, linarith)
  qed
qed

text \<open>Each element of the iteration is the engine's preferred match at its start position.\<close>

lemma captures_step_match:
  "x \<in> set (captures_step r t i) \<Longrightarrow>
     \<exists>s e cs l. x = cs(0 \<mapsto> (s, e)) \<and> s \<le> length t \<and> mt r t s Map.empty = (e, cs) # l"
proof (induction r t i rule: captures_step.induct)
  case (1 r t i)
  obtain s e cs where f: "find_at r t i = Some (s, e, cs)"
    and x: "x = cs(0 \<mapsto> (s, e)) \<or> x \<in> set (captures_step r t (next_pos s e))"
    using "1.prems" by (rule captures_step_memE)
  from x show ?case
  proof
    assume x: "x = cs(0 \<mapsto> (s, e))"
    have "s \<le> length t" "hd (mt r t s Map.empty) = (e, cs)" "mt r t s Map.empty \<noteq> []"
      using find_at_Some [OF f] by simp_all
    then show ?case using x by (metis list.collapse)
  next
    assume "x \<in> set (captures_step r t (next_pos s e))"
    then show ?case using "1.IH" [OF f refl refl] by blast
  qed
qed

lemma captures_iter_match:
  "x \<in> set (captures_iter r t) \<Longrightarrow>
     \<exists>s e cs l. x = cs(0 \<mapsto> (s, e)) \<and> s \<le> length t \<and> mt r t s Map.empty = (e, cs) # l"
  unfolding captures_iter_def by (rule captures_step_match)

section \<open>Claims\<close>

text \<open>C25: captures_iter returns matches whose whole-match span is recorded and lies inside the
  text, in order and without overlap: each match ends no later than the next one starts.\<close>

lemma captures_iter_ordered:
  "list_all (\<lambda>x. \<exists>s e. x 0 = Some (s, e) \<and> s \<le> e \<and> e \<le> length t) (captures_iter r t) \<and>
   sorted_wrt (\<lambda>a b. snd (span0 a) \<le> fst (span0 b)) (captures_iter r t)"
proof
  show "list_all (\<lambda>x. \<exists>s e. x 0 = Some (s, e) \<and> s \<le> e \<and> e \<le> length t) (captures_iter r t)"
    unfolding list_all_iff
  proof
    fix x assume "x \<in> set (captures_iter r t)"
    then have "x 0 = Some (span0 x) \<and> fst (span0 x) \<le> snd (span0 x) \<and> snd (span0 x) \<le> length t"
      using captures_step_spans by (simp add: captures_iter_def)
    then show "\<exists>s e. x 0 = Some (s, e) \<and> s \<le> e \<and> e \<le> length t"
      by (intro exI [of _ "fst (span0 x)"] exI [of _ "snd (span0 x)"]) simp
  qed
  show "sorted_wrt (\<lambda>a b. snd (span0 a) \<le> fst (span0 b)) (captures_iter r t)"
    by (simp add: captures_iter_def captures_step_ordered)
qed

text \<open>C26: The iteration advances at every match, so it ends after at most length t + 1 matches,
  whatever the regex: one per start position of the text and one at its end.\<close>

theorem captures_iter_length: "length (captures_iter r t) \<le> Suc (length t)"
  using captures_step_length [of r t 0] by (simp add: captures_iter_def)

end
