(* ===== verification/Parser.thy ===== *)
theory Parser
  imports RegexIter
begin

text \<open>
  EntryParser: \<open>parse_boot_targets\<close> (\<open>src/src/main.rs\<close>, lines 125-162) turns
  the text printed by \<open>efibootmgr\<close> into a \<open>BootTargets\<close> value. Two
  independent regex passes over the same text: the option pass records
  \<open>BootCurrent\<close> and \<open>BootNext\<close> (an unparsable value defaults to 1, the later
  line wins), the target pass appends one \<open>BootTarget\<close> per matched line whose
  identifier parses as \<open>u16\<close>, in order of appearance.
\<close>

section \<open>Data\<close>

record boot_target =
  target_id :: u16
  target_name :: bytes

text \<open>\<open>BootTargets\<close>; its field \<open>next\<close> is \<open>next_boot\<close> here (\<open>next\<close> is a keyword of Isar).\<close>

record boot_targets =
  targets :: "boot_target list"
  current :: "u16 option"
  next_boot :: "u16 option"

section \<open>The two patterns\<close>

text \<open>\<open>(?m)^([a-zA-Z]+):\s+(.*)$\<close>\<close>

definition regex_options :: regex where
  "regex_options =
     Cat LineStart
      (Cat (Group 1 (Rep Letter 1 True))
       (Cat (One (Lit (CHR '':'')))
        (Cat (Rep Space 1 True)
         (Cat (Group 2 (Rep AnyNoNL 0 True)) LineEnd))))"

text \<open>\<open>(?m)^[a-zA-Z]*([0-9]+)\*\s+(.*?)\t.*$\<close>\<close>

definition regex_targets :: regex where
  "regex_targets =
     Cat LineStart
      (Cat (Rep Letter 0 True)
       (Cat (Group 1 (Rep Digit 1 True))
        (Cat (One (Lit (CHR ''*'')))
         (Cat (Rep Space 1 True)
          (Cat (Group 2 (Rep AnyNoNL 0 False))
           (Cat (One (Lit tab))
            (Cat (Rep AnyNoNL 0 True) LineEnd)))))))"

section \<open>The parser\<close>

definition empty_targets :: boot_targets where
  "empty_targets = \<lparr>targets = [], current = None, next_boot = None\<rparr>"

text \<open>One iteration of the option loop (lines 138-144).\<close>

definition option_step :: "bytes \<Rightarrow> boot_targets \<Rightarrow> caps \<Rightarrow> boot_targets" where
  "option_step raw result cs =
     (let key = group_str raw cs 1; value = group_str raw cs 2 in
      if key = ''BootCurrent'' then
        result\<lparr>current := Some (case parse_u16 value of None \<Rightarrow> 1 | Some v \<Rightarrow> v)\<rparr>
      else if key = ''BootNext'' then
        result\<lparr>next_boot := Some (case parse_u16 value of None \<Rightarrow> 1 | Some v \<Rightarrow> v)\<rparr>
      else result)"

text \<open>One iteration of the target loop (lines 147-159).\<close>

definition target_step :: "bytes \<Rightarrow> boot_targets \<Rightarrow> caps \<Rightarrow> boot_targets" where
  "target_step raw result cs =
     (let id_str = group_str raw cs 1; name = group_str raw cs 2 in
      case parse_u16 id_str of
        None \<Rightarrow> result
      | Some i \<Rightarrow> result\<lparr>targets := targets result @ [\<lparr>target_id = i, target_name = name\<rparr>]\<rparr>)"

definition parse_boot_targets :: "bytes \<Rightarrow> boot_targets" where
  "parse_boot_targets raw =
     (let result = foldl (option_step raw) empty_targets (captures_iter regex_options raw)
      in foldl (target_step raw) result (captures_iter regex_targets raw))"

section \<open>Evaluation\<close>

text \<open>
  The equations that evaluate the parser on a concrete text with \<open>simp\<close>: the
  recursive equations of the search, which are not simplification rules by
  default, and the definitions down to the byte classes.
\<close>

lemmas parse_eval = parse_boot_targets_def captures_iter_def captures_step.simps find_at.simps
  reps.simps next_pos_def regex_options_def regex_targets_def option_step_def target_step_def
  group_str_def empty_targets_def parse_u16_def is_ascii_digit_def digit_val_def
  checked_mul_u16_def checked_add_u16_def is_ascii_alpha_def utf8_width_def Let_def

section \<open>Lemmas\<close>

text \<open>What one iteration of each loop changes, and the two loops as list functions.\<close>

lemma option_step_fields [simp]:
  "targets (option_step raw r cs) = targets r"
  "next_boot (option_step raw r cs) = (if group_str raw cs 1 = ''BootNext''
     then Some (case parse_u16 (group_str raw cs 2) of None \<Rightarrow> 1 | Some v \<Rightarrow> v) else next_boot r)"
  "current (option_step raw r cs) = (if group_str raw cs 1 = ''BootCurrent''
     then Some (case parse_u16 (group_str raw cs 2) of None \<Rightarrow> 1 | Some v \<Rightarrow> v) else current r)"
  by (simp_all add: option_step_def Let_def)

lemma target_step_fields [simp]:
  "current (target_step raw r cs) = current r"
  "next_boot (target_step raw r cs) = next_boot r"
  "targets (target_step raw r cs) = targets r @
     (case parse_u16 (group_str raw cs 1) of None \<Rightarrow> []
      | Some i \<Rightarrow> [\<lparr>target_id = i, target_name = group_str raw cs 2\<rparr>])"
  by (simp_all add: target_step_def Let_def split: option.split)

lemma foldl_option_step_targets: "targets (foldl (option_step raw) r css) = targets r"
  by (induction css arbitrary: r) simp_all

lemma foldl_target_step:
  "current (foldl (target_step raw) r css) = current r"
  "next_boot (foldl (target_step raw) r css) = next_boot r"
  "targets (foldl (target_step raw) r css) = targets r @
     concat (map (\<lambda>cs. case parse_u16 (group_str raw cs 1) of None \<Rightarrow> []
      | Some i \<Rightarrow> [\<lparr>target_id = i, target_name = group_str raw cs 2\<rparr>]) css)"
  by (induction css arbitrary: r) simp_all

lemma foldl_option_step_current:
  "current (foldl (option_step raw) r css) =
     (case filter (\<lambda>cs. group_str raw cs 1 = ''BootCurrent'') css of
        [] \<Rightarrow> current r
      | ks \<Rightarrow> Some (case parse_u16 (group_str raw (last ks) 2) of None \<Rightarrow> 1 | Some v \<Rightarrow> v))"
  by (induction css arbitrary: r) (simp_all split: list.split)

section \<open>Claims\<close>

text \<open>C21: The targets of the parsed catalog are, in order of appearance, one per line matched by
  the target pattern whose identifier parses as u16, with that identifier and the text before
  the first tab as name; lines with an identifier out of range are skipped, and the annotation
  pass does not touch the targets.\<close>

lemma parse_boot_targets_targets:
  "targets (parse_boot_targets raw) =
     concat (map (\<lambda>cs. case parse_u16 (group_str raw cs 1) of None \<Rightarrow> []
      | Some i \<Rightarrow> [\<lparr>target_id = i, target_name = group_str raw cs 2\<rparr>]) (captures_iter regex_targets raw))"
  by (simp add: parse_boot_targets_def foldl_target_step foldl_option_step_targets empty_targets_def)

text \<open>C22: The current entry of the parsed catalog is that of the last BootCurrent annotation
  line (the later line wins), 1 when its value does not parse as u16, and None when there is no
  such line.\<close>

lemma parse_boot_targets_current:
  "current (parse_boot_targets raw) =
     (case filter (\<lambda>cs. group_str raw cs 1 = ''BootCurrent'') (captures_iter regex_options raw) of
        [] \<Rightarrow> None
      | ks \<Rightarrow> Some (case parse_u16 (group_str raw (last ks) 2) of None \<Rightarrow> 1 | Some v \<Rightarrow> v))"
  by (simp add: parse_boot_targets_def foldl_target_step foldl_option_step_current empty_targets_def
      split: list.split)

end
