(* ===== verification/Catalog.thy ===== *)
theory Catalog
  imports Parser
begin

text \<open>
  The read-only operations of \<open>impl BootTargets\<close> (\<open>src/src/main.rs\<close>, lines
  90-123): the row labels the list shows (\<open>get_names\<close>), the resolution of a
  \<open>--next\<close>/\<open>--reboot-to\<close> specifier (\<open>lookup\<close>, the EntryMatcher of the spec)
  and the \<open>--list\<close> output (\<open>print_list\<close>). Proved here: labels keep the order
  and the names, \<open>nxt:\<close> wins over \<open>cur:\<close>; a specifier that parses as \<open>u16\<close>
  selects the first entry with that identifier and never matches by name, any
  other selects the first entry whose name starts with it, byte for byte.
\<close>

section \<open>Row labels\<close>

text \<open>The closure of \<open>get_names\<close> (lines 92-104) for one target.\<close>

definition entry_label :: "boot_targets \<Rightarrow> boot_target \<Rightarrow> bytes" where
  "entry_label bts t =
     (if next_boot bts = Some (target_id t) then ''nxt: '' @ target_name t
      else if current bts = Some (target_id t) then ''cur: '' @ target_name t
      else ''     '' @ target_name t)"

definition get_names :: "boot_targets \<Rightarrow> bytes list" where
  "get_names bts = map (entry_label bts) (targets bts)"

section \<open>Lookup\<close>

text \<open>The predicate each branch of \<open>lookup\<close> hands to \<open>Iterator::find\<close>.\<close>

definition query_matches :: "bytes \<Rightarrow> boot_target \<Rightarrow> bool" where
  "query_matches query t =
     (case parse_u16 query of
        Some i \<Rightarrow> target_id t = i
      | None \<Rightarrow> starts_with (target_name t) query)"

definition lookup :: "boot_targets \<Rightarrow> bytes \<Rightarrow> boot_target option" where
  "lookup bts query =
     (case parse_u16 query of
        Some i \<Rightarrow> find (\<lambda>t. target_id t = i) (targets bts)
      | None \<Rightarrow> find (\<lambda>t. starts_with (target_name t) query) (targets bts))"

section \<open>Listing\<close>

text \<open>\<open>println!("{} \t {}", target.id, target.name)\<close>, one line per target.\<close>

definition list_line :: "boot_target \<Rightarrow> bytes" where
  "list_line t = dec_str (unat (target_id t)) @ '' '' @ [tab] @ '' '' @ target_name t"

definition print_list :: "boot_targets \<Rightarrow> bytes list" where
  "print_list bts = map list_line (targets bts)"

section \<open>Properties of the labels\<close>

lemma length_get_names [simp]: "length (get_names bts) = length (targets bts)"
  by (simp add: get_names_def)

lemma get_names_nth [model_simps]:
  "k < length (targets bts) \<Longrightarrow> get_names bts ! k = entry_label bts (targets bts ! k)"
  by (simp add: get_names_def)

lemma entry_label_split:
  "\<exists>p \<in> {''nxt: '', ''cur: '', ''     ''}. entry_label bts t = p @ target_name t"
  by (simp add: entry_label_def)

section \<open>Properties of lookup\<close>

lemma lookup_find: "lookup bts q = find (query_matches q) (targets bts)"
  unfolding lookup_def query_matches_def by (cases "parse_u16 q") simp_all

lemma lookup_first:
  "lookup bts q = Some t \<longleftrightarrow>
     (\<exists>k < length (targets bts). targets bts ! k = t \<and> query_matches q t \<and>
        (\<forall>j < k. \<not> query_matches q (targets bts ! j)))"
  by (auto simp: lookup_find find_Some_iff)

lemma lookup_None: "lookup bts q = None \<longleftrightarrow> (\<forall>t \<in> set (targets bts). \<not> query_matches q t)"
  by (simp add: lookup_find find_None_iff')

text \<open>The identifier at the start of a --list line, read back.\<close>

lemma list_line_id_parses:
  "parse_u16 (takeWhile (\<lambda>c. c \<noteq> CHR '' '') (list_line t)) = Some (target_id t)"
proof -
  have "list_all is_ascii_digit (dec_str (unat (target_id t)))" using dec_str_props by blast
  then have "\<forall>c \<in> set (dec_str (unat (target_id t))). c \<noteq> CHR '' ''"
    by (auto simp: list_all_iff is_ascii_digit_def)
  then have tw: "takeWhile (\<lambda>c. c \<noteq> CHR '' '') (list_line t) = dec_str (unat (target_id t))"
    by (simp add: list_line_def takeWhile_append2)
  have "parse_u16 (pad_zero_left 0 (dec_str (unat (target_id t)))) = Some (target_id t)"
    by (simp add: parse_u16_padded_dec_str unsigned_less [of "target_id t", where ?'a = nat, simplified])
  with tw show ?thesis by (simp add: pad_zero_left_def)
qed

section \<open>Claims\<close>

text \<open>C31: A specifier that parses as a u16 selects the first target with that identifier, whatever the names are (lookup, numeric branch).\<close>

lemma lookup_numeric_first:
  assumes "parse_u16 q = Some i"
  shows "lookup bts q = Some t \<longleftrightarrow>
     (\<exists>k < length (targets bts). targets bts ! k = t \<and> target_id t = i \<and>
        (\<forall>j < k. target_id (targets bts ! j) \<noteq> i))"
  using assms by (simp add: lookup_first query_matches_def)

lemma lookup_numeric_first_witness:
  "lookup \<lparr>targets = [\<lparr>target_id = 3, target_name = ''7''\<rparr>, \<lparr>target_id = 7, target_name = ''x''\<rparr>],
           current = None, next_boot = None\<rparr> ''7'' = Some \<lparr>target_id = 7, target_name = ''x''\<rparr>"
proof -
  let ?b = "\<lparr>targets = [\<lparr>target_id = 3, target_name = ''7''\<rparr>, \<lparr>target_id = 7, target_name = ''x''\<rparr>],
           current = None, next_boot = None\<rparr>"
  let ?t = "\<lparr>target_id = 7, target_name = ''x''\<rparr>"
  have p: "parse_u16 ''7'' = Some 7"
    by (simp add: parse_u16_def is_ascii_digit_def digit_val_def checked_mul_u16_def checked_add_u16_def)
  have "\<exists>k < length (targets ?b). targets ?b ! k = ?t \<and> target_id ?t = 7 \<and>
          (\<forall>j < k. target_id (targets ?b ! j) \<noteq> 7)"
    by (rule exI [of _ 1]) (simp add: less_Suc_eq)
  then show ?thesis using lookup_numeric_first [OF p, of ?b ?t] by blast
qed



text \<open>C38: The empty specifier does not parse as a number and is a prefix of every name: it selects the first target, if any.\<close>

lemma lookup_empty_query: "lookup bts [] = (case targets bts of [] \<Rightarrow> None | t # _ \<Rightarrow> Some t)"
  by (simp add: lookup_def parse_u16_def starts_with_def split: list.split)

text \<open>A decimal specifier beyond the u16 range, such as 70000, is matched against names, not
  identifiers (the divergence from the help text recorded in the findings).\<close>

lemma lookup_beyond_u16:
  "lookup bts ''70000'' = find (\<lambda>t. prefix ''70000'' (target_name t)) (targets bts)"
proof -
  have "parse_u16 ''70000'' = None"
    by (simp add: parse_u16_def is_ascii_digit_def digit_val_def checked_mul_u16_def checked_add_u16_def)
  then show ?thesis by (simp add: lookup_def starts_with_prefix)
qed

text \<open>C39: Each row of get_names is a five-byte tag followed by the target's name, in target order;
  the tag is nxt exactly for an entry whose id is the next boot entry's, cur exactly for an entry
  whose id is the current one's and is not the next one's, and blank otherwise (next takes
  priority over current, as the spec's Render rule says).\<close>

lemma get_names_tag_name:
  assumes "k < length (targets bts)"
  shows "drop 5 (get_names bts ! k) = target_name (targets bts ! k) \<and>
     (take 5 (get_names bts ! k) = ''nxt: '' \<longleftrightarrow> next_boot bts = Some (target_id (targets bts ! k))) \<and>
     (take 5 (get_names bts ! k) = ''cur: '' \<longleftrightarrow>
        current bts = Some (target_id (targets bts ! k)) \<and> next_boot bts \<noteq> Some (target_id (targets bts ! k))) \<and>
     (take 5 (get_names bts ! k) = ''     '' \<longleftrightarrow>
        next_boot bts \<noteq> Some (target_id (targets bts ! k)) \<and> current bts \<noteq> Some (target_id (targets bts ! k)))"
  using assms by (simp add: get_names_def entry_label_def)

lemma get_names_tag_name_witness:
  "drop 5 (get_names \<lparr>targets = [\<lparr>target_id = 0, target_name = ''Linux''\<rparr>], current = Some 0, next_boot = Some 0\<rparr> ! 0) = ''Linux'' \<and>
   take 5 (get_names \<lparr>targets = [\<lparr>target_id = 0, target_name = ''Linux''\<rparr>], current = Some 0, next_boot = Some 0\<rparr> ! 0) = ''nxt: ''"
  using get_names_tag_name [of 0 "\<lparr>targets = [\<lparr>target_id = 0, target_name = ''Linux''\<rparr>], current = Some 0, next_boot = Some 0\<rparr>"] by simp

end
