(* ===== verification/Dispatch.thy ===== *)
theory Dispatch
  imports Catalog
begin

text \<open>
  ActionDispatcher (\<open>src/src/main.rs\<close>, lines 83-88, 173-215 and 348-352): the
  chosen action, \<open>set_next_boot\<close> (one \<open>efibootmgr --bootnext XXXX\<close> run),
  \<open>reboot_to\<close> (set the next boot, then \<open>shutdown -r now\<close>) and
  \<open>set_next_boot_wrapper\<close>. External commands are an environment: a function
  from program and arguments to the outcome of \<open>Command::status\<close>, a launch
  error or an exit status (\<open>ExitStatus::code\<close>, \<open>None\<close> when a signal ended
  the process). What the code does is the list of events it produces: commands
  run and lines printed, in order. Proved here: the order and number of command
  runs on every branch, the argument passed to \<open>efibootmgr\<close>, and that a
  non-zero exit of \<open>efibootmgr\<close> does not stop the reboot.
\<close>

section \<open>Commands and events\<close>

datatype cmd_status = LaunchError | Exited "int option"

type_synonym cmd_env = "bytes \<Rightarrow> bytes list \<Rightarrow> cmd_status"

datatype io_event = Exec bytes "bytes list" | Stdout bytes | Stderr bytes

text \<open>\<open>ExitStatus::success\<close>: the process exited with code 0.\<close>

definition success :: "int option \<Rightarrow> bool" where
  "success code \<longleftrightarrow> code = Some 0"

text \<open>\<open>ChosenAction\<close>; a reference to a target is the target itself.\<close>

datatype chosen_action = ANone | RebootTo boot_target | SetNext boot_target

section \<open>Operations\<close>

text \<open>\<open>format!("{:0>4}", target.id)\<close>\<close>

definition bootnext_arg :: "boot_target \<Rightarrow> bytes" where
  "bootnext_arg t = pad_zero_left 4 (dec_str (unat (target_id t)))"

definition set_next_boot_args :: "boot_target \<Rightarrow> bytes list" where
  "set_next_boot_args t = [''--bootnext'', bootnext_arg t]"

definition set_next_boot :: "cmd_env \<Rightarrow> boot_target \<Rightarrow> cmd_status \<times> io_event list" where
  "set_next_boot env t =
     (env ''efibootmgr'' (set_next_boot_args t), [Exec ''efibootmgr'' (set_next_boot_args t)])"

definition msg_abort :: bytes where
  "msg_abort = ''Could not set boot target using efibootmgr, aborting...''"

definition msg_nonzero :: "int option \<Rightarrow> bytes" where
  "msg_nonzero code =
     ''efibootmgr exited with non-zero status: '' @ int_str (case code of None \<Rightarrow> -1 | Some c \<Rightarrow> c)"

definition msg_no_reboot :: bytes where
  "msg_no_reboot =
     ''Unable to reboot using shutdown command. Bootnext has been set, either reboot manually or clear''"

text \<open>The report of the first step, shared by \<open>reboot_to\<close> and \<open>set_next_boot_wrapper\<close>.\<close>

definition report_set_next :: "int option \<Rightarrow> io_event list" where
  "report_set_next code = (if success code then [] else [Stdout (msg_nonzero code)])"

definition reboot_to :: "cmd_env \<Rightarrow> boot_target \<Rightarrow> io_event list" where
  "reboot_to env t =
     (let (status, ev) = set_next_boot env t in
      case status of
        LaunchError \<Rightarrow> ev @ [Stdout msg_abort]
      | Exited code \<Rightarrow>
          (let status2 = env ''shutdown'' [''-r'', ''now'']
           in ev @ report_set_next code @ [Exec ''shutdown'' [''-r'', ''now'']] @
              (case status2 of
                 Exited code2 \<Rightarrow> (if success code2 then [] else [Stdout msg_no_reboot])
               | LaunchError \<Rightarrow> [Stdout msg_no_reboot])))"

definition set_next_boot_wrapper :: "cmd_env \<Rightarrow> boot_target \<Rightarrow> io_event list" where
  "set_next_boot_wrapper env t =
     (let (status, ev) = set_next_boot env t in
      case status of
        LaunchError \<Rightarrow> ev @ [Stdout msg_abort]
      | Exited code \<Rightarrow> ev @ report_set_next code)"

text \<open>The final \<open>match action\<close> of \<open>tui_selection\<close> (lines 348-352).\<close>

fun dispatch :: "cmd_env \<Rightarrow> chosen_action \<Rightarrow> io_event list" where
  "dispatch env ANone = []"
| "dispatch env (RebootTo t) = reboot_to env t"
| "dispatch env (SetNext t) = set_next_boot_wrapper env t"

section \<open>Events of a run\<close>

text \<open>The commands a list of events runs, in order.\<close>

fun execs :: "io_event list \<Rightarrow> (bytes \<times> bytes list) list" where
  "execs [] = []"
| "execs (Exec p a # evs) = (p, a) # execs evs"
| "execs (_ # evs) = execs evs"

text \<open>The programs a list of events runs.\<close>

abbreviation run_progs :: "io_event list \<Rightarrow> bytes set" where
  "run_progs evs \<equiv> fst ` set (execs evs)"

section \<open>Lemmas\<close>

lemma execs_append [simp]: "execs (xs @ ys) = execs xs @ execs ys"
  by (induction xs rule: execs.induct) simp_all

lemma execs_report_set_next [simp]: "execs (report_set_next code) = []"
  by (simp add: report_set_next_def)

lemma execs_map_Stdout [simp]: "execs (map Stdout xs) = []"
  by (induction xs) simp_all

lemma dispatch_execs_bound:
  "length (execs (dispatch env a)) \<le> 2 \<and> run_progs (dispatch env a) \<subseteq> {''efibootmgr'', ''shutdown''}"
  by (cases a) (auto simp: reboot_to_def set_next_boot_wrapper_def set_next_boot_def split: cmd_status.split)

lemmas bootnext_arg_eval = set_next_boot_args_def bootnext_arg_def pad_zero_left_def
  dec_str.simps digit_char_def

section \<open>Claims\<close>

text \<open>C4: reboot_to runs efibootmgr with --bootnext and the padded identifier, then
  shutdown -r now whenever efibootmgr could be started, whatever its exit status; when it
  could not be started, nothing else is run.\<close>

lemma reboot_to_execs:
  "execs (reboot_to env t) =
     (case env ''efibootmgr'' (set_next_boot_args t) of
        LaunchError \<Rightarrow> [(''efibootmgr'', set_next_boot_args t)]
      | Exited _ \<Rightarrow> [(''efibootmgr'', set_next_boot_args t), (''shutdown'', [''-r'', ''now''])])"
  by (simp add: reboot_to_def set_next_boot_def split: cmd_status.split)

text \<open>C6: When efibootmgr cannot be started, reboot_to prints the abort message and stops.\<close>

lemma reboot_to_launch_error:
  assumes "env ''efibootmgr'' (set_next_boot_args t) = LaunchError"
  shows "reboot_to env t = [Exec ''efibootmgr'' (set_next_boot_args t), Stdout msg_abort]"
  using assms by (simp add: reboot_to_def set_next_boot_def)

lemma reboot_to_launch_error_witness:
  "reboot_to (\<lambda>p a. LaunchError) \<lparr>target_id = 7, target_name = ''Linux''\<rparr> =
     [Exec ''efibootmgr'' [''--bootnext'', ''0007''], Stdout msg_abort]"
proof -
  let ?t = "\<lparr>target_id = 7::u16, target_name = ''Linux''\<rparr>"
  have "(\<lambda>p (a::bytes list). LaunchError) ''efibootmgr'' (set_next_boot_args ?t) = LaunchError"
    by simp
  then have "reboot_to (\<lambda>p a. LaunchError) ?t =
     [Exec ''efibootmgr'' (set_next_boot_args ?t), Stdout msg_abort]"
    by (rule reboot_to_launch_error)
  then show ?thesis by (simp add: bootnext_arg_eval model_simps)
qed

text \<open>C5: When efibootmgr exits with a non-zero status, reboot_to reports the status and
  still runs shutdown -r now: the reboot is not abandoned, although the next boot entry was
  presumably not set.\<close>

lemma reboot_to_nonzero_exit_reboots:
  assumes "env ''efibootmgr'' (set_next_boot_args t) = Exited code" and "\<not> success code"
  shows "reboot_to env t =
           [Exec ''efibootmgr'' (set_next_boot_args t), Stdout (msg_nonzero code),
            Exec ''shutdown'' [''-r'', ''now'']] @
           (case env ''shutdown'' [''-r'', ''now''] of
              Exited code2 \<Rightarrow> (if success code2 then [] else [Stdout msg_no_reboot])
            | LaunchError \<Rightarrow> [Stdout msg_no_reboot])"
  using assms by (simp add: reboot_to_def set_next_boot_def report_set_next_def)

lemma reboot_to_nonzero_exit_reboots_witness:
  "reboot_to (\<lambda>p a. if p = ''efibootmgr'' then Exited (Some 1) else Exited (Some 0))
     \<lparr>target_id = 7, target_name = ''Linux''\<rparr> =
   [Exec ''efibootmgr'' [''--bootnext'', ''0007''], Stdout (msg_nonzero (Some 1)),
    Exec ''shutdown'' [''-r'', ''now'']]"
proof -
  let ?env = "\<lambda>p (a::bytes list). if p = ''efibootmgr'' then Exited (Some 1) else Exited (Some 0)"
  let ?t = "\<lparr>target_id = 7::u16, target_name = ''Linux''\<rparr>"
  have e: "?env ''efibootmgr'' (set_next_boot_args ?t) = Exited (Some 1)" by simp
  have s: "\<not> success (Some 1)" by (simp add: success_def)
  from e s have "reboot_to ?env ?t =
           [Exec ''efibootmgr'' (set_next_boot_args ?t), Stdout (msg_nonzero (Some 1)),
            Exec ''shutdown'' [''-r'', ''now'']] @
           (case ?env ''shutdown'' [''-r'', ''now''] of
              Exited code2 \<Rightarrow> (if success code2 then [] else [Stdout msg_no_reboot])
            | LaunchError \<Rightarrow> [Stdout msg_no_reboot])"
    by (rule reboot_to_nonzero_exit_reboots)
  then show ?thesis by (simp add: success_def bootnext_arg_eval model_simps)
qed

text \<open>C34: set_next_boot_wrapper runs exactly one command, efibootmgr --bootnext with the
  padded identifier, and never shutdown.\<close>

lemma set_next_boot_wrapper_execs:
  "execs (set_next_boot_wrapper env t) = [(''efibootmgr'', [''--bootnext'', bootnext_arg t])]"
  by (simp add: set_next_boot_wrapper_def set_next_boot_def set_next_boot_args_def
      split: cmd_status.split)

text \<open>C33: The identifier passed to efibootmgr is at least four bytes wide and parses back to
  the target identifier.\<close>

lemma bootnext_arg_roundtrip:
  "parse_u16 (bootnext_arg t) = Some (target_id t) \<and> 4 \<le> length (bootnext_arg t)"
proof
  show "parse_u16 (bootnext_arg t) = Some (target_id t)"
    by (simp add: bootnext_arg_def parse_u16_padded_dec_str
        unsigned_less [of "target_id t", where ?'a = nat, simplified])
  show "4 \<le> length (bootnext_arg t)"
    by (simp add: bootnext_arg_def pad_zero_left_def)
qed

text \<open>C35: A dispatched action runs each external command at most once.\<close>

lemma dispatch_execs_distinct: "distinct (execs (dispatch env a))"
  by (cases a) (simp_all add: reboot_to_execs set_next_boot_wrapper_execs set_next_boot_args_def
      split: cmd_status.split)

end
