(* ===== verification/ListState.thy ===== *)
theory ListState
  imports Prelude RustStd
begin

text \<open>
  The part of ratatui's \<open>ListState\<close> and \<open>List\<close> widget that
  \<open>tui_selection\<close> (\<open>src/src/main.rs\<close>, lines 230 and 257-269, 289-308) relies
  on, from the library's definition (ratatui 0.28): the selection is an
  \<open>Option<usize>\<close>; \<open>select_first\<close> sets 0, \<open>select_last\<close> sets
  \<open>usize::MAX\<close>, \<open>select_next\<close> and \<open>select_previous\<close> step with saturating
  arithmetic (from nothing selected: 0 and \<open>usize::MAX\<close>); none of them knows
  the number of items. Rendering the list corrects the selection: an empty list
  selects nothing, an index past the end selects the last item. Rendering into an
  empty area returns before that correction. The scroll offset, which only
  affects what is drawn, is left to \<open>Render\<close> and \<open>Screen\<close>.
\<close>

record list_state =
  selected :: "usize option"

text \<open>\<open>ListState::default().with_selected(Some(0))\<close>\<close>

definition initial_list_state :: list_state where
  "initial_list_state = \<lparr>selected = Some 0\<rparr>"

definition select_first :: "list_state \<Rightarrow> list_state" where
  "select_first ls = ls\<lparr>selected := Some 0\<rparr>"

definition select_last :: "list_state \<Rightarrow> list_state" where
  "select_last ls = ls\<lparr>selected := Some usize_max\<rparr>"

definition select_next :: "list_state \<Rightarrow> list_state" where
  "select_next ls =
     ls\<lparr>selected := Some (case selected ls of None \<Rightarrow> 0 | Some i \<Rightarrow> saturating_add i 1)\<rparr>"

definition select_previous :: "list_state \<Rightarrow> list_state" where
  "select_previous ls =
     ls\<lparr>selected := Some (case selected ls of None \<Rightarrow> usize_max | Some i \<Rightarrow> saturating_sub i 1)\<rparr>"

text \<open>
  The selection correction of \<open>List::render\<close> for \<open>n\<close> items; \<open>area_ok\<close> says
  whether the list's inner area is non-empty.
\<close>

definition render_clamp :: "nat \<Rightarrow> bool \<Rightarrow> list_state \<Rightarrow> list_state" where
  "render_clamp n area_ok ls =
     (if \<not> area_ok then ls
      else if n = 0 then ls\<lparr>selected := None\<rparr>
      else (case selected ls of
              Some s \<Rightarrow> (if of_nat n \<le> s then ls\<lparr>selected := Some (saturating_sub (of_nat n) 1)\<rparr> else ls)
            | None \<Rightarrow> ls))"

section \<open>Lemmas\<close>

lemma of_nat_usize_le_iff:
  "a < 2 ^ 64 \<Longrightarrow> b < 2 ^ 64 \<Longrightarrow> (of_nat a \<le> (of_nat b :: usize)) \<longleftrightarrow> a \<le> b"
  by (simp add: word_le_nat_alt unat_of_nat)

lemma saturating_sub_one:
  "0 < a \<Longrightarrow> a < 2 ^ 64 \<Longrightarrow> saturating_sub (of_nat a) 1 = (of_nat (a - 1) :: usize)"
proof -
  assume a: "0 < a" "a < 2 ^ 64"
  then have "(1::usize) \<le> of_nat a" using of_nat_usize_le_iff [of 1 a] by simp
  then show ?thesis using a by (simp add: saturating_sub_def of_nat_diff)
qed

lemma saturating_add_one:
  "Suc a < 2 ^ 64 \<Longrightarrow> saturating_add (of_nat a) 1 = (of_nat (Suc a) :: usize)"
  by (simp add: saturating_add_def unat_of_nat)

lemma render_clamp_Some:
  assumes "0 < n" and "n < 2 ^ 64"
  shows "render_clamp n True \<lparr>selected = Some w\<rparr> =
           \<lparr>selected = Some (if of_nat n \<le> w then of_nat (n - 1) else w)\<rparr>"
  using assms by (simp add: render_clamp_def saturating_sub_one)

lemma render_clamp_first:
  assumes "0 < n" and "n < 2 ^ 64"
  shows "render_clamp n True (select_first ls) = \<lparr>selected = Some 0\<rparr>"
proof -
  have "\<not> (of_nat n :: usize) \<le> 0" using assms of_nat_usize_le_iff [of n 0] by simp
  with assms show ?thesis by (simp add: select_first_def render_clamp_def)
qed

lemma render_clamp_below:
  assumes "0 < n" and "n < 2 ^ 64" and "m < n"
  shows "render_clamp n True \<lparr>selected = Some (of_nat m)\<rparr> = \<lparr>selected = Some (of_nat m)\<rparr>"
proof -
  have "\<not> (of_nat n :: usize) \<le> of_nat m" using assms of_nat_usize_le_iff [of n m] by simp
  with assms show ?thesis by (simp add: render_clamp_def)
qed

lemma render_clamp_last:
  "0 < n \<Longrightarrow> n < 2 ^ 64 \<Longrightarrow> render_clamp n True (select_last ls) = \<lparr>selected = Some (of_nat (n - 1))\<rparr>"
  by (simp add: select_last_def render_clamp_def saturating_sub_one usize_max_def)

lemma render_clamp_keeps_Some:
  "0 < n \<Longrightarrow> selected ls \<noteq> None \<Longrightarrow> selected (render_clamp n a ls) \<noteq> None"
  by (auto simp: render_clamp_def split: option.split)

lemma render_clamp_in_range:
  assumes "0 < n" and "n < 2 ^ 64" and "selected ls \<noteq> None"
  shows "\<exists>i < n. render_clamp n True ls = \<lparr>selected = Some (of_nat i)\<rparr>"
proof -
  obtain w where w: "selected ls = Some w" using assms(3) by blast
  then have ls: "ls = \<lparr>selected = Some w\<rparr>" by (cases ls) simp
  show ?thesis
  proof (cases "of_nat n \<le> w")
    case True
    then have "render_clamp n True ls = \<lparr>selected = Some (of_nat (n - 1))\<rparr>"
      using assms ls by (simp add: render_clamp_Some del: of_nat_diff)
    then show ?thesis using assms(1) by (intro exI [of _ "n - 1"]) simp
  next
    case False
    then have u: "unat w < n" using assms(2) by (simp add: word_le_nat_alt unat_of_nat)
    have "render_clamp n True ls = \<lparr>selected = Some w\<rparr>"
      using False assms ls by (simp add: render_clamp_Some)
    then show ?thesis using u by (intro exI [of _ "unat w"]) simp
  qed
qed

end
