(* ===== verification/Selection.thy ===== *)
theory Selection
  imports Dispatch ListState
begin

text \<open>
  SelectionController: \<open>tui_selection\<close> (\<open>src/src/main.rs\<close>, lines 218-355).
  The terminal events the loop reads are crossterm key events (code, Control
  modifier, press/repeat/release) and other events; each iteration of the loop
  is one \<open>tick\<close> of the environment: whether drawing succeeded, whether the
  list had a non-empty area to be drawn in, and what polling for input gave
  (an error, a timeout, a read error or an event). A run of the loop is the
  loop over a finite trace of ticks; when the trace ends before the loop does,
  the loop is still running (\<open>LoopPending\<close>), so a claim that the loop ends is a
  claim about the trace.

  \<open>usize\<close> subtraction \<open>item_count - 1\<close> (line 289) panics in a build with
  overflow checks (the debug profile) and wraps otherwise; the flag \<open>ovf\<close>
  chooses. The terminal is a record of its two modes; setup and cleanup each may
  fail, and the \<open>?\<close> operator then returns at once.
\<close>

section \<open>Input\<close>

datatype key_code = KChar char | KEsc | KUp | KDown | KHome | KEnd | KEnter | KOther

datatype key_kind = Press | Repeat | Release

record key_event =
  code :: key_code
  ctrl :: bool
  kind :: key_kind

datatype event = Key key_event | OtherEvent

datatype poll_input = PollErr | PollTimeout | ReadErr | Read event

record tick =
  draw_ok :: bool
  area_ok :: bool
  input :: poll_input

section \<open>One key press\<close>

datatype key_outcome = KContinue list_state | KBreak chosen_action | KPanic

text \<open>\<open>Vec::get\<close>\<close>

definition vec_get :: "'a list \<Rightarrow> usize \<Rightarrow> 'a option" where
  "vec_get xs i = (if unat i < length xs then Some (xs ! unat i) else None)"

text \<open>The Enter and \<open>n\<close> branches (lines 312-335): the action for the selected target.\<close>

definition choose_action :: "(boot_target \<Rightarrow> chosen_action) \<Rightarrow> boot_targets \<Rightarrow> list_state \<Rightarrow> chosen_action" where
  "choose_action mk bts ls =
     (case selected ls of
        Some index \<Rightarrow>
          (if index < of_nat (length (targets bts)) then
             (case vec_get (targets bts) index of Some t \<Rightarrow> mk t | None \<Rightarrow> ANone)
           else ANone)
      | None \<Rightarrow> ANone)"

text \<open>\<open>item_count - 1\<close> on \<open>usize\<close>: \<open>None\<close> is the overflow panic.\<close>

definition count_minus_one :: "bool \<Rightarrow> nat \<Rightarrow> usize option" where
  "count_minus_one ovf item_count =
     (if ovf \<and> item_count = 0 then None else Some (of_nat item_count - 1))"

definition handle_key :: "bool \<Rightarrow> boot_targets \<Rightarrow> list_state \<Rightarrow> key_event \<Rightarrow> key_outcome" where
  "handle_key ovf bts ls k =
     (let item_count = length (targets bts);
          cur = (case selected ls of None \<Rightarrow> 0 | Some i \<Rightarrow> i) in
      if code k = KChar (CHR ''q'') \<or> code k = KEsc then KBreak ANone
      else if code k = KChar (CHR ''c'') \<and> ctrl k then KBreak ANone
      else if code k = KDown then
        (case count_minus_one ovf item_count of
           None \<Rightarrow> KPanic
         | Some last_index \<Rightarrow> KContinue (if last_index \<le> cur then select_first ls else select_next ls))
      else if code k = KUp then
        KContinue (if cur \<le> 0 then select_last ls else select_previous ls)
      else if code k = KHome then KContinue (select_first ls)
      else if code k = KEnd then KContinue (select_last ls)
      else if code k = KEnter then KBreak (choose_action RebootTo bts ls)
      else if code k = KChar (CHR ''n'') then KBreak (choose_action SetNext bts ls)
      else KContinue ls)"

section \<open>The loop\<close>

datatype loop_result = LoopPending list_state | LoopIoErr | LoopPanic | LoopBreak chosen_action

text \<open>One iteration (lines 232-341) on the state before drawing.\<close>

datatype iter_result = IterNext list_state | IterStop loop_result

definition loop_iter :: "bool \<Rightarrow> boot_targets \<Rightarrow> list_state \<Rightarrow> tick \<Rightarrow> iter_result" where
  "loop_iter ovf bts ls tk =
     (if \<not> draw_ok tk then IterStop LoopIoErr
      else
        (let ls1 = render_clamp (length (targets bts)) (area_ok tk) ls in
         case input tk of
           PollErr \<Rightarrow> IterStop LoopIoErr
         | PollTimeout \<Rightarrow> IterNext ls1
         | ReadErr \<Rightarrow> IterStop LoopIoErr
         | Read OtherEvent \<Rightarrow> IterNext ls1
         | Read (Key k) \<Rightarrow>
             (if kind k \<noteq> Press then IterNext ls1
              else
                (case handle_key ovf bts ls1 k of
                   KContinue ls2 \<Rightarrow> IterNext ls2
                 | KBreak a \<Rightarrow> IterStop (LoopBreak a)
                 | KPanic \<Rightarrow> IterStop LoopPanic))))"

fun tui_loop :: "bool \<Rightarrow> boot_targets \<Rightarrow> list_state \<Rightarrow> tick list \<Rightarrow> loop_result" where
  "tui_loop ovf bts ls [] = LoopPending ls"
| "tui_loop ovf bts ls (tk # tks) =
     (case loop_iter ovf bts ls tk of
        IterNext ls' \<Rightarrow> tui_loop ovf bts ls' tks
      | IterStop r \<Rightarrow> r)"

section \<open>The session\<close>

record term_state =
  alt_screen :: bool
  raw_mode :: bool

definition normal_terminal :: term_state where
  "normal_terminal = \<lparr>alt_screen = False, raw_mode = False\<rparr>"

record tui_env =
  enter_alt_ok :: bool
  raw_ok :: bool
  term_new_ok :: bool
  clear_ok :: bool
  ticks :: "tick list"
  leave_alt_ok :: bool
  disable_raw_ok :: bool
  commands :: cmd_env

datatype tui_result = TuiOk | TuiErr | TuiPanic | TuiPending

definition tui_selection ::
  "bool \<Rightarrow> boot_targets \<Rightarrow> tui_env \<Rightarrow> term_state \<Rightarrow> tui_result \<times> term_state \<times> io_event list" where
  "tui_selection ovf bts env ts =
     (if \<not> enter_alt_ok env then (TuiErr, ts, [])
      else
        (let ts1 = ts\<lparr>alt_screen := True\<rparr> in
         if \<not> raw_ok env then (TuiErr, ts1, [])
         else
           (let ts2 = ts1\<lparr>raw_mode := True\<rparr> in
            if \<not> term_new_ok env \<or> \<not> clear_ok env then (TuiErr, ts2, [])
            else
              (case tui_loop ovf bts initial_list_state (ticks env) of
                 LoopPending _ \<Rightarrow> (TuiPending, ts2, [])
               | LoopIoErr \<Rightarrow> (TuiErr, ts2, [])
               | LoopPanic \<Rightarrow> (TuiPanic, ts2, [])
               | LoopBreak a \<Rightarrow>
                   (if \<not> leave_alt_ok env then (TuiErr, ts2, [])
                    else
                      (let ts3 = ts2\<lparr>alt_screen := False\<rparr> in
                       if \<not> disable_raw_ok env then (TuiErr, ts3, [])
                       else (TuiOk, ts3\<lparr>raw_mode := False\<rparr>, dispatch (commands env) a)))))))"

section \<open>Specification and reachable states\<close>

text \<open>
  The navigation the specification asks for (section 4.3 of the spec): on \<open>n\<close> entries,
  Down and Up move cyclically, Home and End jump to the ends.
\<close>

definition nav_spec :: "nat \<Rightarrow> key_code \<Rightarrow> nat \<Rightarrow> nat" where
  "nav_spec n c s =
     (case c of
        KDown \<Rightarrow> (if s = n - 1 then 0 else s + 1)
      | KUp \<Rightarrow> (if s = 0 then n - 1 else s - 1)
      | KHome \<Rightarrow> 0
      | KEnd \<Rightarrow> n - 1
      | _ \<Rightarrow> s)"

text \<open>The keys that leave the loop without an action (lines 278-285).\<close>

definition is_quit_key :: "key_event \<Rightarrow> bool" where
  "is_quit_key k \<longleftrightarrow>
     code k = KChar (CHR ''q'') \<or> code k = KEsc \<or> (code k = KChar (CHR ''c'') \<and> ctrl k)"

text \<open>A tick that draws and reads one key press.\<close>

definition key_tick :: "bool \<Rightarrow> key_code \<Rightarrow> tick" where
  "key_tick a c = \<lparr>draw_ok = True, area_ok = a, input = Read (Key \<lparr>code = c, ctrl = False, kind = Press\<rparr>)\<rparr>"

text \<open>The states the loop can be in before drawing, starting from \<open>initial_list_state\<close>.\<close>

inductive loop_reach :: "bool \<Rightarrow> boot_targets \<Rightarrow> list_state \<Rightarrow> bool" for ovf bts where
  start: "loop_reach ovf bts initial_list_state"
| step: "loop_reach ovf bts ls \<Longrightarrow> loop_iter ovf bts ls tk = IterNext ls' \<Longrightarrow> loop_reach ovf bts ls'"

section \<open>Lemmas\<close>

lemma handle_key_keeps_Some:
  "handle_key ovf bts ls k = KContinue ls' \<Longrightarrow> selected ls \<noteq> None \<Longrightarrow> selected ls' \<noteq> None"
  by (auto simp: handle_key_def Let_def select_first_def select_last_def select_next_def
      select_previous_def split: if_splits option.splits)

lemma loop_iter_keeps_Some:
  assumes n: "0 < length (targets bts)" and it: "loop_iter ovf bts ls tk = IterNext ls'"
    and s: "selected ls \<noteq> None"
  shows "selected ls' \<noteq> None"
proof -
  let ?ls1 = "render_clamp (length (targets bts)) (area_ok tk) ls"
  have s1: "selected ?ls1 \<noteq> None" using n s by (rule render_clamp_keeps_Some)
  have "ls' = ?ls1 \<or> (\<exists>k. handle_key ovf bts ?ls1 k = KContinue ls')"
    using it by (auto simp: loop_iter_def Let_def
        split: if_splits poll_input.splits event.splits key_outcome.splits)
  then show ?thesis using s1 handle_key_keeps_Some by blast
qed

lemma loop_reach_Some:
  "loop_reach ovf bts ls \<Longrightarrow> 0 < length (targets bts) \<Longrightarrow> selected ls \<noteq> None"
proof (induction rule: loop_reach.induct)
  case start
  then show ?case by (simp add: initial_list_state_def)
next
  case (step ls tk ls')
  then show ?case using loop_iter_keeps_Some by blast
qed

lemma choose_action_in_range:
  "i < length (targets bts) \<Longrightarrow> length (targets bts) < 2 ^ 64 \<Longrightarrow>
     choose_action mk bts \<lparr>selected = Some (of_nat i)\<rparr> = mk (targets bts ! i)"
  by (simp add: choose_action_def vec_get_def word_less_nat_alt unat_of_nat)

lemma loop_iter_not_pending [simp]: "loop_iter ovf bts ls tk \<noteq> IterStop (LoopPending ls')"
  by (simp add: loop_iter_def Let_def split: poll_input.split event.split key_outcome.split)

lemma tui_loop_append:
  "tui_loop ovf bts ls (xs @ ys) =
     (case tui_loop ovf bts ls xs of LoopPending ls' \<Rightarrow> tui_loop ovf bts ls' ys | r \<Rightarrow> r)"
proof (induction xs arbitrary: ls)
  case Nil
  then show ?case by simp
next
  case (Cons tk xs)
  then show ?case
    by (cases "loop_iter ovf bts ls tk") (auto split: loop_result.split)
qed

lemma handle_key_quit:
  "is_quit_key k \<Longrightarrow> handle_key ovf bts ls k = KBreak ANone"
  by (auto simp: is_quit_key_def handle_key_def Let_def)

lemma handle_key_KPanic: "handle_key ovf bts ls k = KPanic \<Longrightarrow> ovf \<and> targets bts = []"
  by (auto simp: handle_key_def count_minus_one_def Let_def split: if_splits option.splits)

lemma loop_iter_panic: "loop_iter ovf bts ls tk = IterStop LoopPanic \<Longrightarrow> ovf \<and> targets bts = []"
  by (auto simp: loop_iter_def Let_def dest: handle_key_KPanic split: if_splits poll_input.splits event.splits
      key_outcome.splits)

lemma tui_selection_events:
  "snd (snd (tui_selection ovf bts env ts)) = [] \<or>
   (\<exists>a. snd (snd (tui_selection ovf bts env ts)) = dispatch (commands env) a)"
  by (auto simp: tui_selection_def Let_def split: loop_result.split)

section \<open>Claims\<close>

text \<open>C1: Navigation refines the specification: on a non-empty list, a press of Up, Down,
  Home or End followed by the next drawing of the list selects the index the specification
  gives (Down wraps from the last entry to the first, Up from the first to the last).\<close>

theorem nav_refines:
  assumes n: "0 < length (targets bts)" "length (targets bts) < 2 ^ 64"
    and s: "s < length (targets bts)"
    and k: "code k \<in> {KUp, KDown, KHome, KEnd}"
  shows "\<exists>ls'. handle_key ovf bts \<lparr>selected = Some (of_nat s)\<rparr> k = KContinue ls' \<and>
           render_clamp (length (targets bts)) True ls' =
             \<lparr>selected = Some (of_nat (nav_spec (length (targets bts)) (code k) s))\<rparr>"
proof -
  let ?n = "length (targets bts)"
  have s64: "s < 2 ^ 64" using s n by simp
  have cm: "count_minus_one ovf ?n = Some (of_nat (?n - 1))"
    using n of_nat_minus_one_word [of ?n, where 'a = 64] by (simp add: count_minus_one_def)
  from k consider "code k = KUp" | "code k = KDown" | "code k = KHome" | "code k = KEnd" by blast
  then show ?thesis
  proof cases
    case 1
    show ?thesis
    proof (cases "s = 0")
      case True
      with 1 n show ?thesis by (simp add: handle_key_def nav_spec_def render_clamp_last)
    next
      case False
      have "(of_nat s :: usize) \<noteq> 0" using False s64 by (metis unat_of_nat_usize unsigned_0)
      then have "\<not> (of_nat s :: usize) \<le> 0" by simp
      moreover have "select_previous \<lparr>selected = Some (of_nat s)\<rparr> = \<lparr>selected = Some (of_nat (s - 1))\<rparr>"
        using False s64 by (simp add: select_previous_def saturating_sub_one)
      moreover have "render_clamp ?n True \<lparr>selected = Some (of_nat (s - 1))\<rparr> =
                       \<lparr>selected = Some (of_nat (s - 1))\<rparr>"
        using n s by (intro render_clamp_below) simp_all
      ultimately show ?thesis using 1 False by (simp add: handle_key_def nav_spec_def)
    qed
  next
    case 2
    show ?thesis
    proof (cases "s = ?n - 1")
      case True
      then have "of_nat (?n - 1) \<le> (of_nat s :: usize)" by simp
      with 2 True n cm show ?thesis
        by (simp add: handle_key_def nav_spec_def render_clamp_first)
    next
      case False
      then have lt: "Suc s < ?n" using s by simp
      have "\<not> of_nat (?n - 1) \<le> (of_nat s :: usize)"
        using False s n by (simp add: of_nat_usize_le_iff del: of_nat_diff)
      moreover have "select_next \<lparr>selected = Some (of_nat s)\<rparr> = \<lparr>selected = Some (of_nat (Suc s))\<rparr>"
        using lt n by (simp add: select_next_def saturating_add_one)
      moreover have "render_clamp ?n True \<lparr>selected = Some (of_nat (Suc s))\<rparr> =
                       \<lparr>selected = Some (of_nat (Suc s))\<rparr>"
        using n lt by (intro render_clamp_below) simp_all
      ultimately show ?thesis using 2 False cm by (simp add: handle_key_def nav_spec_def)
    qed
  next
    case 3
    with n show ?thesis by (simp add: handle_key_def nav_spec_def render_clamp_first)
  next
    case 4
    with n show ?thesis by (simp add: handle_key_def nav_spec_def render_clamp_last)
  qed
qed

theorem nav_refines_witness:
  "\<exists>ls'. handle_key True \<lparr>targets = [\<lparr>target_id = 0, target_name = ''A''\<rparr>, \<lparr>target_id = 1, target_name = ''B''\<rparr>,
                   \<lparr>target_id = 2, target_name = ''C''\<rparr>], current = None, next_boot = None\<rparr>
           \<lparr>selected = Some 0\<rparr> \<lparr>code = KUp, ctrl = False, kind = Press\<rparr> = KContinue ls' \<and>
         render_clamp 3 True ls' = \<lparr>selected = Some 2\<rparr>"
proof -
  let ?b = "\<lparr>targets = [\<lparr>target_id = 0::u16, target_name = ''A''\<rparr>, \<lparr>target_id = 1, target_name = ''B''\<rparr>,
                   \<lparr>target_id = 2, target_name = ''C''\<rparr>], current = None, next_boot = None\<rparr>"
  let ?k = "\<lparr>code = KUp, ctrl = False, kind = Press\<rparr>"
  have "\<exists>ls'. handle_key True ?b \<lparr>selected = Some (of_nat 0)\<rparr> ?k = KContinue ls' \<and>
           render_clamp (length (targets ?b)) True ls' =
             \<lparr>selected = Some (of_nat (nav_spec (length (targets ?b)) (code ?k) 0))\<rparr>"
    by (rule nav_refines) simp_all
  then show ?thesis by (simp add: nav_spec_def numeral_3_eq_3)
qed

text \<open>C2: In every reachable state of the loop on a non-empty list, a press of Enter in a
  drawn list ends the loop with RebootTo of an entry of the list: the selection never
  points outside the list when Enter is read.\<close>

theorem enter_selects_entry:
  assumes "loop_reach ovf bts ls" and "0 < length (targets bts)" and "length (targets bts) < 2 ^ 64"
    and "draw_ok tk" and "area_ok tk" and "input tk = Read (Key k)" and "kind k = Press"
    and "code k = KEnter"
  shows "\<exists>i < length (targets bts). loop_iter ovf bts ls tk = IterStop (LoopBreak (RebootTo (targets bts ! i)))"
proof -
  have "selected ls \<noteq> None" using assms(1,2) by (rule loop_reach_Some)
  then obtain i where i: "i < length (targets bts)"
    and r: "render_clamp (length (targets bts)) True ls = \<lparr>selected = Some (of_nat i)\<rparr>"
    using render_clamp_in_range assms(2,3) by blast
  then have "loop_iter ovf bts ls tk = IterStop (LoopBreak (RebootTo (targets bts ! i)))"
    using assms(3-8) by (simp add: loop_iter_def handle_key_def choose_action_in_range)
  with i show ?thesis by blast
qed

theorem enter_selects_entry_witness:
  "\<exists>i < 2. loop_iter True \<lparr>targets = [\<lparr>target_id = 0, target_name = ''A''\<rparr>, \<lparr>target_id = 1, target_name = ''B''\<rparr>],
              current = None, next_boot = None\<rparr> initial_list_state (key_tick True KEnter) =
     IterStop (LoopBreak (RebootTo ([\<lparr>target_id = 0, target_name = ''A''\<rparr>, \<lparr>target_id = 1, target_name = ''B''\<rparr>] ! i)))"
proof -
  let ?b = "\<lparr>targets = [\<lparr>target_id = 0::u16, target_name = ''A''\<rparr>, \<lparr>target_id = 1, target_name = ''B''\<rparr>],
              current = None, next_boot = None\<rparr>"
  have "\<exists>i < length (targets ?b). loop_iter True ?b initial_list_state (key_tick True KEnter) =
          IterStop (LoopBreak (RebootTo (targets ?b ! i)))"
    by (rule enter_selects_entry [OF loop_reach.start, where k = "\<lparr>code = KEnter, ctrl = False, kind = Press\<rparr>"])
      (simp_all add: key_tick_def)
  then show ?thesis by (simp add: numeral_2_eq_2)
qed

text \<open>C3: The loop ends at the latest at the first pressed quit key (q, Esc or Ctrl+C) in a
  tick that draws: what follows in the input trace does not matter, and the loop is no
  longer running.\<close>

theorem quit_ends_loop:
  assumes "draw_ok tk" and "input tk = Read (Key k)" and "kind k = Press" and "is_quit_key k"
  shows "tui_loop ovf bts ls (tks @ tk # rest) = tui_loop ovf bts ls (tks @ [tk]) \<and>
         (\<forall>ls'. tui_loop ovf bts ls (tks @ [tk]) \<noteq> LoopPending ls')"
proof -
  have it: "loop_iter ovf bts ls' tk = IterStop (LoopBreak ANone)" for ls'
    using assms by (simp add: loop_iter_def handle_key_quit)
  show ?thesis
    by (simp add: tui_loop_append it split: loop_result.split)
qed

theorem quit_ends_loop_witness:
  "tui_loop True empty_targets initial_list_state ([] @ key_tick True KEsc # [key_tick True KEnter]) =
     tui_loop True empty_targets initial_list_state ([] @ [key_tick True KEsc]) \<and>
   (\<forall>ls'. tui_loop True empty_targets initial_list_state ([] @ [key_tick True KEsc]) \<noteq> LoopPending ls')"
  by (rule quit_ends_loop [where k = "\<lparr>code = KEsc, ctrl = False, kind = Press\<rparr>"])
    (simp_all add: key_tick_def is_quit_key_def)

text \<open>C14: In a build with overflow checks, pressing Down on an empty list panics: the
  subtraction item_count - 1 underflows.\<close>

theorem empty_catalog_down_panics:
  assumes "targets bts = []" and "draw_ok tk" and "input tk = Read (Key k)" and "kind k = Press"
    and "code k = KDown"
  shows "loop_iter True bts ls tk = IterStop LoopPanic"
  using assms by (simp add: loop_iter_def handle_key_def count_minus_one_def)

theorem empty_catalog_down_panics_witness:
  "loop_iter True empty_targets initial_list_state (key_tick True KDown) = IterStop LoopPanic"
  by (rule empty_catalog_down_panics [where k = "\<lparr>code = KDown, ctrl = False, kind = Press\<rparr>"])
    (simp_all add: empty_targets_def key_tick_def)

text \<open>C12: When drawing or reading input fails inside the loop, tui_selection returns the error
  with the terminal still in the alternate screen and in raw mode: the cleanup is skipped.\<close>

theorem tui_io_error_keeps_raw_mode:
  assumes "enter_alt_ok env" "raw_ok env" "term_new_ok env" "clear_ok env"
    and "tui_loop ovf bts initial_list_state (ticks env) = LoopIoErr"
  shows "tui_selection ovf bts env normal_terminal =
           (TuiErr, \<lparr>alt_screen = True, raw_mode = True\<rparr>, [])"
  using assms by (simp add: tui_selection_def normal_terminal_def)

theorem tui_io_error_keeps_raw_mode_witness:
  "tui_selection True empty_targets
     \<lparr>enter_alt_ok = True, raw_ok = True, term_new_ok = True, clear_ok = True,
      ticks = [\<lparr>draw_ok = False, area_ok = True, input = PollTimeout\<rparr>],
      leave_alt_ok = True, disable_raw_ok = True, commands = (\<lambda>p a. LaunchError)\<rparr> normal_terminal =
   (TuiErr, \<lparr>alt_screen = True, raw_mode = True\<rparr>, [])"
  by (rule tui_io_error_keeps_raw_mode) (simp_all add: loop_iter_def)

text \<open>C13: When the loop ends with a chosen action and both cleanup steps succeed, the terminal
  leaves the alternate screen and raw mode, and then the action is dispatched.\<close>

theorem tui_break_restores_terminal:
  assumes "enter_alt_ok env" "raw_ok env" "term_new_ok env" "clear_ok env"
    and "tui_loop ovf bts initial_list_state (ticks env) = LoopBreak a"
    and "leave_alt_ok env" "disable_raw_ok env"
  shows "tui_selection ovf bts env ts =
           (TuiOk, ts\<lparr>alt_screen := False, raw_mode := False\<rparr>, dispatch (commands env) a)"
  using assms by (simp add: tui_selection_def)

theorem tui_break_restores_terminal_witness:
  "tui_selection True empty_targets
     \<lparr>enter_alt_ok = True, raw_ok = True, term_new_ok = True, clear_ok = True,
      ticks = [key_tick True KEsc],
      leave_alt_ok = True, disable_raw_ok = True, commands = (\<lambda>p a. LaunchError)\<rparr> normal_terminal =
   (TuiOk, normal_terminal, [])"
proof -
  let ?env = "\<lparr>enter_alt_ok = True, raw_ok = True, term_new_ok = True, clear_ok = True,
      ticks = [key_tick True KEsc],
      leave_alt_ok = True, disable_raw_ok = True, commands = (\<lambda>p (a::bytes list). LaunchError)\<rparr>"
  have "tui_selection True empty_targets ?env normal_terminal =
     (TuiOk, normal_terminal\<lparr>alt_screen := False, raw_mode := False\<rparr>, dispatch (commands ?env) ANone)"
    by (rule tui_break_restores_terminal)
      (simp_all add: key_tick_def loop_iter_def handle_key_def)
  then show ?thesis by (simp add: normal_terminal_def)
qed

text \<open>C37: When the list has no area to be drawn in (a terminal too small for the bordered
  list), End followed by Enter ends the loop with no action, whatever the catalog, the selection
  before and the input after: the selection usize::MAX set by End is never corrected, and
  Enter's bounds check rejects it.\<close>

theorem tiny_terminal_end_enter:
  assumes "length (targets bts) < 2 ^ 64"
  shows "tui_loop ovf bts ls (key_tick False KEnd # key_tick False KEnter # tks) = LoopBreak ANone"
proof -
  have "\<not> usize_max < of_nat (length (targets bts))"
    using assms by (simp add: usize_max_def not_less word_le_nat_alt unat_of_nat_usize)
  then show ?thesis
    by (simp add: key_tick_def loop_iter_def render_clamp_def handle_key_def Let_def select_last_def
        choose_action_def)
qed

theorem tiny_terminal_end_enter_witness:
  "tui_loop True \<lparr>targets = [\<lparr>target_id = 0, target_name = ''A''\<rparr>, \<lparr>target_id = 1, target_name = ''B''\<rparr>],
                  current = None, next_boot = None\<rparr> initial_list_state
     [key_tick False KEnd, key_tick False KEnter] = LoopBreak ANone"
  using tiny_terminal_end_enter [of
      "\<lparr>targets = [\<lparr>target_id = 0, target_name = ''A''\<rparr>, \<lparr>target_id = 1, target_name = ''B''\<rparr>],
        current = None, next_boot = None\<rparr>" True initial_list_state "[]"]
  by simp

text \<open>C15: The loop panics only in a build with overflow checks and only on an empty list: the
  underflow of item_count - 1 is the one panic of the loop.\<close>

theorem tui_loop_panics_only_on_empty:
  "tui_loop ovf bts ls tks = LoopPanic \<Longrightarrow> ovf \<and> targets bts = []"
proof (induction tks arbitrary: ls)
  case Nil
  then show ?case by simp
next
  case (Cons tk tks)
  then show ?case
    by (cases "loop_iter ovf bts ls tk") (auto dest: loop_iter_panic)
qed

theorem tui_loop_panics_only_on_empty_witness:
  "tui_loop True empty_targets initial_list_state [key_tick True KDown] = LoopPanic \<and>
   True \<and> targets empty_targets = []"
proof -
  have p: "tui_loop True empty_targets initial_list_state [key_tick True KDown] = LoopPanic"
    by (simp add: key_tick_def loop_iter_def handle_key_def count_minus_one_def empty_targets_def)
  have "True \<and> targets empty_targets = []" using p by (rule tui_loop_panics_only_on_empty)
  with p show ?thesis by simp
qed

end
