(* ===== verification/Utf8.thy ===== *)
theory Utf8
  imports RustStd
begin

text \<open>
  Well-formed UTF-8, as \<open>String::from_utf8\<close> checks it in \<open>get_boot_targets\<close>
  (\<open>src/src/main.rs\<close>, line 167), and the facts about code point boundaries that the
  regex proofs need: a lead byte announces a sequence of continuation bytes
  (\<open>utf8_valid_lead\<close>), and the byte after an ASCII byte starts a code point
  (\<open>utf8_valid_after_ascii\<close>).
\<close>

section \<open>Definitions\<close>

text \<open>
  \<open>String::from_utf8\<close>: the bytes are well-formed UTF-8 (Unicode Table 3-7:
  no overlong forms, no surrogates, nothing above U+10FFFF).
\<close>

definition cont_byte :: "char \<Rightarrow> bool" where
  "cont_byte c \<longleftrightarrow> (let b = (of_char c :: nat) in 0x80 \<le> b \<and> b \<le> 0xBF)"

definition byte_in :: "nat \<Rightarrow> nat \<Rightarrow> char \<Rightarrow> bool" where
  "byte_in lo hi c \<longleftrightarrow> lo \<le> of_char c \<and> of_char c \<le> hi"

fun utf8_valid :: "bytes \<Rightarrow> bool" where
  "utf8_valid [] = True"
| "utf8_valid (c # cs) =
     (let b = (of_char c :: nat) in
      if b < 0x80 then utf8_valid cs
      else if 0xC2 \<le> b \<and> b \<le> 0xDF then
        (case cs of d # r \<Rightarrow> cont_byte d \<and> utf8_valid r | [] \<Rightarrow> False)
      else if 0xE0 \<le> b \<and> b \<le> 0xEF then
        (case cs of
           d # e # r \<Rightarrow>
             (if b = 0xE0 then byte_in 0xA0 0xBF d
              else if b = 0xED then byte_in 0x80 0x9F d else cont_byte d)
             \<and> cont_byte e \<and> utf8_valid r
         | _ \<Rightarrow> False)
      else if 0xF0 \<le> b \<and> b \<le> 0xF4 then
        (case cs of
           d # e # f # r \<Rightarrow>
             (if b = 0xF0 then byte_in 0x90 0xBF d
              else if b = 0xF4 then byte_in 0x80 0x8F d else cont_byte d)
             \<and> cont_byte e \<and> cont_byte f \<and> utf8_valid r
         | _ \<Rightarrow> False)
      else False)"

section \<open>Lemmas\<close>

lemma cont_byte_high: "cont_byte c \<Longrightarrow> 0x80 \<le> (of_char c :: nat)"
  by (simp add: cont_byte_def Let_def)

lemma byte_in_high: "0x80 \<le> lo \<Longrightarrow> byte_in lo hi c \<Longrightarrow> 0x80 \<le> (of_char c :: nat)"
  by (simp add: byte_in_def)

lemma utf8_valid_ascii [simp]:
  "(of_char c :: nat) < 0x80 \<Longrightarrow> utf8_valid (c # cs) = utf8_valid cs"
  by simp

lemma utf8_valid_lead:
  assumes v: "utf8_valid (c # cs)" and h: "0x80 \<le> (of_char c :: nat)"
  shows "2 \<le> utf8_width c \<and> utf8_width c \<le> Suc (length cs) \<and>
         (\<forall>q < utf8_width c - 1. 0x80 \<le> (of_char (cs ! q) :: nat)) \<and>
         utf8_valid (drop (utf8_width c - 1) cs)"
proof -
  let ?b = "of_char c :: nat"
  from v h consider (two) "0xC2 \<le> ?b \<and> ?b \<le> 0xDF" | (three) "0xE0 \<le> ?b \<and> ?b \<le> 0xEF"
    | (four) "0xF0 \<le> ?b \<and> ?b \<le> 0xF4"
    by (simp add: Let_def split: if_splits)
  then show ?thesis
  proof cases
    case two
    with v h obtain d r where "cs = d # r" "cont_byte d" "utf8_valid r"
      by (auto simp: Let_def split: list.splits)
    moreover have "utf8_width c = 2" using two by (simp add: utf8_width_def)
    ultimately show ?thesis by (simp add: cont_byte_high)
  next
    case three
    with v h obtain d e r where cs: "cs = d # e # r" and "0x80 \<le> (of_char d :: nat)" "cont_byte e" "utf8_valid r"
      by (auto simp: Let_def byte_in_def cont_byte_def split: list.splits if_splits)
    moreover have "utf8_width c = 3" using three by (simp add: utf8_width_def)
    ultimately show ?thesis by (auto simp: cont_byte_high less_Suc_eq nth_Cons')
  next
    case four
    with v h obtain d e f r where cs: "cs = d # e # f # r" and "0x80 \<le> (of_char d :: nat)" "cont_byte e"
      "cont_byte f" "utf8_valid r"
      by (auto simp: Let_def byte_in_def cont_byte_def split: list.splits if_splits)
    moreover have "utf8_width c = 4" using four by (simp add: utf8_width_def)
    ultimately show ?thesis by (auto simp: cont_byte_high less_Suc_eq nth_Cons')
  qed
qed

text \<open>In well-formed UTF-8 an ASCII byte is a whole code point: what follows it is well-formed.\<close>

lemma utf8_valid_after_ascii:
  "utf8_valid t \<Longrightarrow> k < length t \<Longrightarrow> (of_char (t ! k) :: nat) < 0x80 \<Longrightarrow> utf8_valid (drop (Suc k) t)"
proof (induction "length t" arbitrary: t k rule: less_induct)
  case less
  then obtain c cs where t: "t = c # cs" by (cases t) auto
  show ?case
  proof (cases "(of_char c :: nat) < 0x80")
    case True
    then have vcs: "utf8_valid cs" using less.prems(1) t by simp
    show ?thesis
    proof (cases k)
      case 0
      then show ?thesis using t vcs by simp
    next
      case (Suc k')
      then have "k' < length cs" "(of_char (cs ! k') :: nat) < 0x80" using less.prems t by simp_all
      then have "utf8_valid (drop (Suc k') cs)" using less.hyps [of cs k'] t vcs by simp
      then show ?thesis using t Suc by simp
    qed
  next
    case False
    let ?w = "utf8_width c"
    have l: "2 \<le> ?w \<and> ?w \<le> Suc (length cs) \<and> (\<forall>q < ?w - 1. 0x80 \<le> (of_char (cs ! q) :: nat)) \<and>
        utf8_valid (drop (?w - 1) cs)"
      using utf8_valid_lead [of c cs] less.prems(1) t False by simp
    then have w2: "2 \<le> ?w" and wl: "?w - 1 \<le> length cs" by linarith+
    have kw: "?w \<le> k"
    proof (rule ccontr)
      assume nk: "\<not> ?w \<le> k"
      show False
      proof (cases k)
        case 0
        then show False using less.prems(3) t False by simp
      next
        case (Suc k')
        then have "k' < ?w - 1" using nk by simp
        then show False using l less.prems(3) t Suc by fastforce
      qed
    qed
    define r where "r = drop (?w - 1) cs"
    have lr: "length r < length t" using l t by (simp add: r_def)
    have kr: "k - ?w < length r" using less.prems(2) t kw l by (simp add: r_def)
    have "drop (?w - 1) cs ! (k - ?w) = cs ! ((?w - 1) + (k - ?w))"
      using wl by (rule nth_drop)
    also have "(?w - 1) + (k - ?w) = k - 1" using kw l by simp
    finally have "r ! (k - ?w) = t ! k" using t kw l by (simp add: r_def nth_Cons')
    then have "utf8_valid (drop (Suc (k - ?w)) r)"
      using less.hyps [OF lr, of "k - ?w"] kr less.prems(3) l by (simp add: r_def)
    moreover have "drop (Suc (k - ?w)) r = drop (Suc k) t" using t kw l by (simp add: r_def)
    ultimately show ?thesis by simp
  qed
qed

end
