(* ===== verification/TargetNames.thy ===== *)
theory TargetNames
  imports Parser Utf8
begin

text \<open>
  What the target pattern \<open>(?m)^[a-zA-Z]*([0-9]+)\*\s+(.*?)\t.*$\<close> (line 128)
  guarantees of the names it captures, on well-formed UTF-8 text: the lazy group
  ends at the first tab after the separator, so a name holds no tab and no line
  feed. The proof follows the match the engine reports (\<open>mt_Cat_hd\<close>,
  \<open>lazy_group_hd\<close>): every position the classes step to is a code point
  boundary (\<open>mt_valid\<close>), every ASCII byte inside the span of \<open>.*?\<close> is
  one of the group's candidate ends (\<open>reps_any_cover\<close>), and at a tab the rest of
  the pattern matches (\<open>rest_at_tab\<close>), so an earlier end would have been taken.
  \<open>cls_ascii\<close> and \<open>regex_ascii\<close> say that a pattern's literals are ASCII,
  which the two patterns of the code are.
\<close>

section \<open>Definitions\<close>

definition cls_ascii :: "cls \<Rightarrow> bool" where
  "cls_ascii c \<longleftrightarrow> (case c of Lit d \<Rightarrow> (of_char d :: nat) < 0x80 | _ \<Rightarrow> True)"

fun regex_ascii :: "regex \<Rightarrow> bool" where
  "regex_ascii (One c) = cls_ascii c"
| "regex_ascii (Rep c m g) = cls_ascii c"
| "regex_ascii (Group n r) = regex_ascii r"
| "regex_ascii (Cat r1 r2) = (regex_ascii r1 \<and> regex_ascii r2)"
| "regex_ascii _ = True"

text \<open>The tail \<open>\t.*$\<close> of the target pattern.\<close>

definition tab_rest :: regex where
  "tab_rest = Cat (One (Lit tab)) (Cat (Rep AnyNoNL 0 True) LineEnd)"

section \<open>Code point boundaries\<close>

lemma ws_len_ascii: "ws_len (c # cs) \<noteq> 0 \<Longrightarrow> (of_char c :: nat) < 0x80 \<Longrightarrow> ws_len (c # cs) = 1"
  by (auto simp: Let_def split: if_splits list.splits)

lemma ws_len_lead: "ws_len (c # cs) \<noteq> 0 \<Longrightarrow> 0x80 \<le> (of_char c :: nat) \<Longrightarrow> ws_len (c # cs) = utf8_width c"
  by (auto simp: Let_def utf8_width_def split: if_splits list.splits)

lemma utf8_valid_drop_lead:
  "utf8_valid (c # cs) \<Longrightarrow> 0x80 \<le> (of_char c :: nat) \<Longrightarrow> utf8_valid (drop (utf8_width c) (c # cs))"
  using utf8_valid_lead [of c cs] by (cases "utf8_width c") simp_all

lemma cls_len_Cons_ascii:
  "cls_len c (c0 # cs) \<noteq> 0 \<Longrightarrow> (of_char c0 :: nat) < 0x80 \<Longrightarrow> cls_len c (c0 # cs) = 1"
  by (cases c) (auto simp: utf8_width_def ws_len_ascii simp del: ws_len.simps split: if_splits)

lemma cls_len_Cons_lead:
  assumes "cls_ascii c" and v: "utf8_valid (c0 # cs)" and "cls_len c (c0 # cs) \<noteq> 0"
    and h: "0x80 \<le> (of_char c0 :: nat)"
  shows "cls_len c (c0 # cs) = utf8_width c0"
proof (cases c)
  case Space
  then show ?thesis using ws_len_lead assms by simp
next
  case AnyNoNL
  have "2 \<le> utf8_width c0" "utf8_width c0 \<le> Suc (length cs)" using utf8_valid_lead [OF v h] by simp_all
  moreover have "c0 \<noteq> newline" using h by auto
  ultimately show ?thesis using AnyNoNL by simp
qed (use assms in \<open>auto simp: cls_ascii_def is_ascii_alpha_def is_ascii_digit_def Let_def split: if_splits\<close>)

lemma cls_step_valid:
  assumes "cls_ascii c" and v: "utf8_valid (drop x t)" and k: "cls_len c (drop x t) \<noteq> 0"
  shows "utf8_valid (drop (x + cls_len c (drop x t)) t)"
proof -
  obtain c0 cs where d: "drop x t = c0 # cs" using k by (cases "drop x t") auto
  have "drop (x + cls_len c (drop x t)) t = drop (cls_len c (drop x t)) (drop x t)"
    by (simp add: add.commute)
  then have "drop (x + cls_len c (drop x t)) t = drop (cls_len c (c0 # cs)) (c0 # cs)"
    by (simp only: d)
  moreover have "utf8_valid (drop (cls_len c (c0 # cs)) (c0 # cs))"
  proof (cases "(of_char c0 :: nat) < 0x80")
    case True
    then show ?thesis using cls_len_Cons_ascii [of c c0 cs] k v d by simp
  next
    case False
    then show ?thesis
      using cls_len_Cons_lead [of c c0 cs] utf8_valid_drop_lead [of c0 cs] assms d by simp
  qed
  ultimately show ?thesis by simp
qed

lemma reps_valid:
  "cls_ascii c \<Longrightarrow> utf8_valid (drop i t) \<Longrightarrow> j \<in> set (reps c t i) \<Longrightarrow> utf8_valid (drop j t)"
proof (induction c t i rule: reps.induct)
  case (1 c t i)
  let ?k = "cls_len c (drop i t)"
  from "1.prems"(3) have k: "?k \<noteq> 0" "\<not> length t < i + ?k"
    and j: "j = i + ?k \<or> j \<in> set (reps c t (i + ?k))"
    by (subst (asm) reps.simps; simp add: Let_def split: if_splits)+
  have "utf8_valid (drop (i + ?k) t)" using cls_step_valid "1.prems"(1,2) k(1) by blast
  with j show ?case using "1.IH" [OF refl] k "1.prems"(1) by auto
qed

lemma mt_valid:
  "regex_ascii r \<Longrightarrow> utf8_valid (drop i t) \<Longrightarrow> (j, cs') \<in> set (mt r t i cs) \<Longrightarrow> utf8_valid (drop j t)"
proof (induction r arbitrary: i cs j cs')
  case (One c)
  then show ?case using cls_step_valid [of c i t] by (auto simp: Let_def split: if_splits)
next
  case (Rep c m g)
  have "j \<in> set (drop m (i # reps c t i))"
    using Rep.prems(3) by (auto simp: Let_def split: if_splits)
  then have "j \<in> set (i # reps c t i)" by (rule in_set_dropD)
  with Rep.prems(1,2) show ?case using reps_valid [of c i t j] by auto
next
  case (Group n r)
  from Group.prems(3) obtain cs0 where "(j, cs0) \<in> set (mt r t i cs)" by auto
  with Group.IH Group.prems(1,2) show ?case by simp
next
  case (Cat r1 r2)
  from Cat.prems(3) obtain j1 cs1 where m1: "(j1, cs1) \<in> set (mt r1 t i cs)" and m2: "(j, cs') \<in> set (mt r2 t j1 cs1)"
    by auto
  have "utf8_valid (drop j1 t)" using Cat.IH(1) [OF _ Cat.prems(2) m1] Cat.prems(1) by simp
  with Cat.IH(2) [OF _ _ m2] Cat.prems(1) show ?case by simp
qed (auto split: if_splits)

section \<open>Repetitions and the engine's first match\<close>

lemma reps_Cons:
  "j \<in> set (reps c t i) \<Longrightarrow>
     cls_len c (drop i t) \<noteq> 0 \<and> i + cls_len c (drop i t) \<le> length t \<and>
     reps c t i = (i + cls_len c (drop i t)) # reps c t (i + cls_len c (drop i t))"
  by (subst (asm) reps.simps, subst reps.simps) (simp add: Let_def split: if_splits)

lemma reps_sorted: "sorted_wrt (<) (i # reps c t i)"
proof (induction c t i rule: reps.induct)
  case (1 c t i)
  show ?case
  proof (cases "reps c t i")
    case Nil
    then show ?thesis by simp
  next
    case (Cons j js)
    then have r: "reps c t i = (i + cls_len c (drop i t)) # reps c t (i + cls_len c (drop i t))"
      and k: "cls_len c (drop i t) \<noteq> 0" "i + cls_len c (drop i t) \<le> length t"
      using reps_Cons [of j c t i] by simp_all
    have "sorted_wrt (<) ((i + cls_len c (drop i t)) # reps c t (i + cls_len c (drop i t)))"
      using "1.IH" [OF refl] k by simp
    moreover have "\<forall>x \<in> set (reps c t (i + cls_len c (drop i t))). i < x"
      using reps_bounds [of _ c t "i + cls_len c (drop i t)"] k by fastforce
    ultimately show ?thesis using r k by simp
  qed
qed

text \<open>Inside the span of \<open>.*\<close> over well-formed text, every ASCII byte starts a repetition
  and is not a line feed.\<close>

lemma reps_any_cover:
  "c = AnyNoNL \<Longrightarrow> utf8_valid (drop i t) \<Longrightarrow> j \<in> set (reps c t i) \<Longrightarrow> i \<le> p \<Longrightarrow> p < j \<Longrightarrow>
     (p \<in> set (i # reps c t i) \<and> t ! p \<noteq> newline) \<or> 0x80 \<le> (of_char (t ! p) :: nat)"
proof (induction c t i rule: reps.induct)
  case (1 c t i)
  let ?k = "cls_len c (drop i t)"
  have r: "?k \<noteq> 0" "i + ?k \<le> length t" "reps c t i = (i + ?k) # reps c t (i + ?k)"
    using reps_Cons [OF "1.prems"(3)] by simp_all
  obtain c0 cs where d: "drop i t = c0 # cs" using r(1) by (cases "drop i t") auto
  have nth: "t ! q = (c0 # cs) ! (q - i)" if "i \<le> q" for q
  proof -
    have "drop i t ! (q - i) = t ! (i + (q - i))" using r(2) by (intro nth_drop) simp
    then show ?thesis using that d by simp
  qed
  have ti: "t ! i = c0" using nth [of i] by simp
  show ?case
  proof (cases "p < i + ?k")
    case True
    show ?thesis
    proof (cases "p = i")
      case True
      then show ?thesis using "1.prems"(1) r(1) d ti by (auto split: if_splits)
    next
      case False
      with True "1.prems"(4) have pi: "i < p" "p < i + ?k" by simp_all
      have hi: "0x80 \<le> (of_char c0 :: nat)"
      proof (rule ccontr)
        assume "\<not> 0x80 \<le> (of_char c0 :: nat)"
        then have "?k = 1" using cls_len_Cons_ascii [of c c0 cs] d r(1) by simp
        with pi show False by simp
      qed
      then have w: "?k = utf8_width c0"
        using cls_len_Cons_lead [of c c0 cs] "1.prems"(1,2) r(1) d by (simp add: cls_ascii_def)
      have "\<forall>q < utf8_width c0 - 1. 0x80 \<le> (of_char (cs ! q) :: nat)"
        using utf8_valid_lead [of c0 cs] "1.prems"(2) d hi by simp
      moreover have "t ! p = cs ! (p - i - 1)" using nth [of p] pi by (simp add: nth_Cons')
      ultimately show ?thesis using pi w by auto
    qed
  next
    case False
    have v: "utf8_valid (drop (i + ?k) t)"
      using cls_step_valid "1.prems"(1,2) r(1) by (simp add: cls_ascii_def)
    show ?thesis
    proof (cases "j = i + ?k")
      case True
      then show ?thesis using False "1.prems"(5) by simp
    next
      case jn: False
      then have "j \<in> set (reps c t (i + ?k))" using "1.prems"(3) r(3) by simp
      then have "(p \<in> set ((i + ?k) # reps c t (i + ?k)) \<and> t ! p \<noteq> newline) \<or> 0x80 \<le> (of_char (t ! p) :: nat)"
        using "1.IH" [OF refl] r(1,2) "1.prems"(1,5) v False by simp
      then show ?thesis using r(3) by auto
    qed
  qed
qed

lemma reps_last_line_end:
  "c = AnyNoNL \<Longrightarrow> i \<le> length t \<Longrightarrow> mt LineEnd t (last (i # reps c t i)) cs \<noteq> []"
proof (induction c t i rule: reps.induct)
  case (1 c t i)
  let ?k = "cls_len c (drop i t)"
  show ?case
  proof (cases "reps c t i")
    case Nil
    have "?k = 0"
    proof (rule ccontr)
      assume "?k \<noteq> 0"
      moreover have "?k \<le> length (drop i t)" by (rule cls_len_le)
      ultimately have "reps c t i \<noteq> []" using "1.prems"(2) by (subst reps.simps) (simp add: Let_def)
      with Nil show False by simp
    qed
    then have "i = length t \<or> (i < length t \<and> t ! i = newline)"
    proof (cases "i < length t")
      case True
      then have "drop i t = t ! i # drop (Suc i) t" by (simp add: Cons_nth_drop_Suc)
      with \<open>?k = 0\<close> "1.prems"(1) have "t ! i = newline" by (simp split: if_splits)
      with True show ?thesis by simp
    next
      case False
      then show ?thesis using "1.prems"(2) by simp
    qed
    then show ?thesis using Nil by auto
  next
    case (Cons j js)
    then have r: "?k \<noteq> 0" "i + ?k \<le> length t" "reps c t i = (i + ?k) # reps c t (i + ?k)"
      using reps_Cons [of j c t i] by simp_all
    then show ?thesis using "1.IH" [OF refl] "1.prems"(1) by simp
  qed
qed

lemma concat_map_nonempty: "x \<in> set xs \<Longrightarrow> f x \<noteq> [] \<Longrightarrow> concat (map f xs) \<noteq> []"
  by (induction xs) auto

lemma rest_at_tab: "p < length t \<Longrightarrow> t ! p = tab \<Longrightarrow> mt tab_rest t p cs \<noteq> []"
proof -
  assume p: "p < length t" "t ! p = tab"
  then have d: "drop p t = tab # drop (Suc p) t" by (simp add: Cons_nth_drop_Suc [symmetric])
  let ?R = "Cat (Rep AnyNoNL 0 True) LineEnd"
  let ?e = "last (Suc p # reps AnyNoNL t (Suc p))"
  have one: "mt (One (Lit tab)) t p cs = [(Suc p, cs)]" using d by simp
  have m1: "(?e, cs) \<in> set (mt (Rep AnyNoNL 0 True) t (Suc p) cs)"
    unfolding mt.simps(4) Let_def using last_in_set [of "Suc p # reps AnyNoNL t (Suc p)"]
    by (simp del: last.simps) blast
  have m2: "mt LineEnd t ?e cs \<noteq> []" by (rule reps_last_line_end) (use p in simp_all)
  have "mt ?R t (Suc p) cs \<noteq> []"
    unfolding mt.simps(6)
    by (rule concat_map_nonempty [OF m1]) (simp only: case_prod_conv m2, simp)
  moreover have "mt tab_rest t p cs = mt ?R t (Suc p) cs"
    unfolding tab_rest_def mt.simps(6) [of "One (Lit tab)"] one by simp
  ultimately show ?thesis by simp
qed

lemma rest_caps: "(e, cs') \<in> set (mt tab_rest t p cs) \<Longrightarrow> cs' = cs"
  by (auto simp: tab_rest_def Let_def split: if_splits)

lemma concat_map_Cons:
  "concat (map f xs) = y # l \<Longrightarrow>
     \<exists>k < length xs. (\<exists>l'. f (xs ! k) = y # l') \<and> (\<forall>k' < k. f (xs ! k') = [])"
proof (induction xs)
  case Nil
  then show ?case by simp
next
  case (Cons x xs)
  show ?case
  proof (cases "f x")
    case Nil
    with Cons obtain k where "k < length xs" "\<exists>l'. f (xs ! k) = y # l'" "\<forall>k' < k. f (xs ! k') = []"
      by auto
    with Nil show ?thesis
      by (intro exI [of _ "Suc k"]) (auto simp: less_Suc_eq_0_disj)
  next
    case (Cons z zs)
    with Cons.prems show ?thesis by (intro exI [of _ 0]) simp
  qed
qed

lemma mt_Cat_hd:
  assumes "mt (Cat r1 r2) t i cs = y # l"
  shows "\<exists>j cs1 l'. (j, cs1) \<in> set (mt r1 t i cs) \<and> mt r2 t j cs1 = y # l'"
proof -
  obtain k l' where k: "k < length (mt r1 t i cs)"
    and h: "(case mt r1 t i cs ! k of (j, cs') \<Rightarrow> mt r2 t j cs') = y # l'"
    using concat_map_Cons [of "\<lambda>(j, cs'). mt r2 t j cs'" "mt r1 t i cs" y l] assms by auto
  obtain j cs1 where e: "mt r1 t i cs ! k = (j, cs1)" by (cases "mt r1 t i cs ! k") auto
  have "(j, cs1) \<in> set (mt r1 t i cs)" using k e by (metis nth_mem)
  moreover have "mt r2 t j cs1 = y # l'" using h e by simp
  ultimately show ?thesis by blast
qed

lemma mt_Cat_hd_valid:
  assumes "regex_ascii r1" "utf8_valid (drop i t)" "i \<le> length t" "mt (Cat r1 r2) t i cs = y # l"
  shows "\<exists>j cs1 l'. utf8_valid (drop j t) \<and> i \<le> j \<and> j \<le> length t \<and> mt r2 t j cs1 = y # l'"
proof -
  obtain j cs1 l' where m: "(j, cs1) \<in> set (mt r1 t i cs)" "mt r2 t j cs1 = y # l'"
    using mt_Cat_hd [OF assms(4)] by blast
  have "utf8_valid (drop j t)" using mt_valid assms(1,2) m(1) by blast
  moreover have "i \<le> j \<and> j \<le> length t" using mt_bounds assms(3) m(1) by blast
  ultimately show ?thesis using m(2) by blast
qed

lemma lazy_group_hd:
  assumes "mt (Cat (Group n (Rep c 0 False)) r2) t a cs = y # l"
  shows "\<exists>k < length (a # reps c t a).
           (\<exists>l'. mt r2 t ((a # reps c t a) ! k) (cs(n \<mapsto> (a, (a # reps c t a) ! k))) = y # l') \<and>
           (\<forall>k' < k. mt r2 t ((a # reps c t a) ! k') (cs(n \<mapsto> (a, (a # reps c t a) ! k'))) = [])"
proof -
  have "mt (Cat (Group n (Rep c 0 False)) r2) t a cs =
          concat (map (\<lambda>j. mt r2 t j (cs(n \<mapsto> (a, j)))) (a # reps c t a))"
    by (simp add: comp_def)
  with assms show ?thesis
    using concat_map_Cons [of "\<lambda>j. mt r2 t j (cs(n \<mapsto> (a, j)))" "a # reps c t a" y l] by simp
qed

lemma regex_targets_split:
  "regex_targets =
     Cat LineStart (Cat (Rep Letter 0 True) (Cat (Group 1 (Rep Digit 1 True))
       (Cat (One (Lit (CHR ''*''))) (Cat (Rep Space 1 True) (Cat (Group 2 (Rep AnyNoNL 0 False)) tab_rest)))))"
  by (simp add: regex_targets_def tab_rest_def)

lemma sorted_nth_index:
  assumes "sorted_wrt (<) (xs :: nat list)" "k' < length xs" "xs ! k' < xs ! k"
  shows "k' < k"
proof (rule ccontr)
  assume "\<not> k' < k"
  then consider "k = k'" | "k < k'" by linarith
  then show False
  proof cases
    case 2
    have "xs ! k < xs ! k'" by (rule sorted_wrt_nth_less [OF assms(1) 2 assms(2)])
    with assms(3) show False by simp
  qed (use assms(3) in simp)
qed

lemma target_match_name:
  assumes v: "utf8_valid (drop s t)" and s: "s \<le> length t"
    and m: "mt regex_targets t s Map.empty = (e, cs) # l"
  shows "\<exists>a j. cs 2 = Some (a, j) \<and> a \<le> j \<and> j \<le> length t \<and>
           (\<forall>p. a \<le> p \<and> p < j \<longrightarrow> t ! p \<noteq> tab \<and> t ! p \<noteq> newline)"
proof -
  let ?G = "Cat (Group 2 (Rep AnyNoNL 0 False)) tab_rest"
  let ?R4 = "Cat (Rep Space 1 True) ?G"
  let ?R3 = "Cat (One (Lit (CHR ''*''))) ?R4"
  let ?R2 = "Cat (Group 1 (Rep Digit 1 True)) ?R3"
  let ?R1 = "Cat (Rep Letter 0 True) ?R2"
  have m0: "mt (Cat LineStart ?R1) t s Map.empty = (e, cs) # l" using m unfolding regex_targets_split .
  have "\<exists>j cs1 l'. utf8_valid (drop j t) \<and> s \<le> j \<and> j \<le> length t \<and> mt ?R1 t j cs1 = (e, cs) # l'"
    by (rule mt_Cat_hd_valid [OF _ v s m0]) simp
  then obtain i1 c1 l1 where 1: "utf8_valid (drop i1 t)" "i1 \<le> length t" "mt ?R1 t i1 c1 = (e, cs) # l1"
    by blast
  have "\<exists>j cs1 l'. utf8_valid (drop j t) \<and> i1 \<le> j \<and> j \<le> length t \<and> mt ?R2 t j cs1 = (e, cs) # l'"
    by (rule mt_Cat_hd_valid [OF _ 1]) (simp add: cls_ascii_def)
  then obtain i2 c2 l2 where 2: "utf8_valid (drop i2 t)" "i2 \<le> length t" "mt ?R2 t i2 c2 = (e, cs) # l2"
    by blast
  have "\<exists>j cs1 l'. utf8_valid (drop j t) \<and> i2 \<le> j \<and> j \<le> length t \<and> mt ?R3 t j cs1 = (e, cs) # l'"
    by (rule mt_Cat_hd_valid [OF _ 2]) (simp add: cls_ascii_def)
  then obtain i3 c3 l3 where 3: "utf8_valid (drop i3 t)" "i3 \<le> length t" "mt ?R3 t i3 c3 = (e, cs) # l3"
    by blast
  have "\<exists>j cs1 l'. utf8_valid (drop j t) \<and> i3 \<le> j \<and> j \<le> length t \<and> mt ?R4 t j cs1 = (e, cs) # l'"
    by (rule mt_Cat_hd_valid [OF _ 3]) (simp add: cls_ascii_def)
  then obtain i4 c4 l4 where 4: "utf8_valid (drop i4 t)" "i4 \<le> length t" "mt ?R4 t i4 c4 = (e, cs) # l4"
    by blast
  have "\<exists>j cs1 l'. utf8_valid (drop j t) \<and> i4 \<le> j \<and> j \<le> length t \<and> mt ?G t j cs1 = (e, cs) # l'"
    by (rule mt_Cat_hd_valid [OF _ 4]) (simp add: cls_ascii_def)
  then obtain a ca la where va: "utf8_valid (drop a t)" and al: "a \<le> length t" and g: "mt ?G t a ca = (e, cs) # la"
    by blast
  let ?L = "a # reps AnyNoNL t a"
  obtain k l' where k: "k < length ?L"
    and hd: "mt tab_rest t (?L ! k) (ca(2 \<mapsto> (a, ?L ! k))) = (e, cs) # l'"
    and before: "\<forall>k' < k. mt tab_rest t (?L ! k') (ca(2 \<mapsto> (a, ?L ! k'))) = []"
    using lazy_group_hd [OF g] by blast
  let ?j = "?L ! k"
  have "(e, cs) \<in> set (mt tab_rest t ?j (ca(2 \<mapsto> (a, ?j))))" using hd by simp
  then have "cs = ca(2 \<mapsto> (a, ?j))" by (rule rest_caps)
  then have cs2: "cs 2 = Some (a, ?j)" by simp
  have jL: "?j \<in> set ?L" using k by (rule nth_mem)
  then have aj: "a \<le> ?j \<and> ?j \<le> length t" using al reps_bounds [of ?j AnyNoNL t a] by auto
  have "t ! p \<noteq> tab \<and> t ! p \<noteq> newline" if p: "a \<le> p" "p < ?j" for p
  proof -
    have "?j \<in> set (reps AnyNoNL t a)" using jL p by auto
    then have "(p \<in> set ?L \<and> t ! p \<noteq> newline) \<or> 0x80 \<le> (of_char (t ! p) :: nat)"
      using reps_any_cover [OF refl va] p by blast
    then show ?thesis
    proof
      assume h: "0x80 \<le> (of_char (t ! p) :: nat)"
      show ?thesis
      proof
        show "t ! p \<noteq> tab" using h by auto
        show "t ! p \<noteq> newline" using h by auto
      qed
    next
      assume pl: "p \<in> set ?L \<and> t ! p \<noteq> newline"
      then have "p \<in> set ?L" by simp
      then obtain k' where k': "k' < length ?L" "?L ! k' = p" by (metis in_set_conv_nth)
      have "k' < k" using sorted_nth_index [OF reps_sorted k'(1)] k' p by simp
      then have "mt tab_rest t p (ca(2 \<mapsto> (a, p))) = []" using before k' by auto
      moreover have "p < length t" using p aj by simp
      ultimately have "t ! p \<noteq> tab" using rest_at_tab by blast
      with pl show ?thesis by simp
    qed
  qed
  with cs2 aj show ?thesis by blast
qed

section \<open>From matches to the parsed names\<close>

lemma line_start_valid:
  assumes "utf8_valid t" and "s \<le> length t" and "(j, cs1) \<in> set (mt LineStart t s cs)"
  shows "utf8_valid (drop s t)"
proof (cases s)
  case 0
  then show ?thesis using assms(1) by simp
next
  case (Suc k)
  then have "t ! k = newline" "k < length t" using assms(2,3) by (auto split: if_splits)
  then show ?thesis using utf8_valid_after_ascii [OF assms(1)] Suc by simp
qed

lemma set_take_drop_nth:
  "c \<in> set (take (j - a) (drop a t)) \<Longrightarrow> j \<le> length t \<Longrightarrow> \<exists>p. a \<le> p \<and> p < j \<and> t ! p = c"
proof -
  assume c: "c \<in> set (take (j - a) (drop a t))" and j: "j \<le> length t"
  then obtain q where q: "q < j - a" "c = t ! (a + q)" by (auto simp: in_set_conv_nth)
  then show ?thesis by (intro exI [of _ "a + q"]) simp
qed

lemma target_names_caps:
  assumes "utf8_valid raw" and "x \<in> set (captures_iter regex_targets raw)"
  shows "tab \<notin> set (group_str raw x 2) \<and> newline \<notin> set (group_str raw x 2)"
proof -
  obtain s e cs l where x: "x = cs(0 \<mapsto> (s, e))" and s: "s \<le> length raw"
    and m: "mt regex_targets raw s Map.empty = (e, cs) # l"
    using captures_iter_match [OF assms(2)] by blast
  obtain j1 cs1 l1 where "(j1, cs1) \<in> set (mt LineStart raw s Map.empty)"
    using mt_Cat_hd [of LineStart] m unfolding regex_targets_split by blast
  then have v: "utf8_valid (drop s raw)" using line_start_valid assms(1) s by blast
  obtain a j where c2: "cs 2 = Some (a, j)" and aj: "a \<le> j" "j \<le> length raw"
    and no: "\<forall>p. a \<le> p \<and> p < j \<longrightarrow> raw ! p \<noteq> tab \<and> raw ! p \<noteq> newline"
    using target_match_name [OF v s m] by blast
  have g: "group_str raw x 2 = take (j - a) (drop a raw)" using x c2 by (simp add: group_str_def)
  show ?thesis
    unfolding g using set_take_drop_nth [of _ j a raw] aj(2) no by blast
qed

section \<open>Claims\<close>

text \<open>C23: On a well-formed UTF-8 listing, the name of every parsed target contains no tab and no
  line feed: it is the text between the separator and the first tab of one line.\<close>

theorem target_names_single_field:
  assumes "utf8_valid raw" and "tg \<in> set (targets (parse_boot_targets raw))"
  shows "tab \<notin> set (target_name tg) \<and> newline \<notin> set (target_name tg)"
proof -
  have "targets (parse_boot_targets raw) =
     concat (map (\<lambda>cs. case parse_u16 (group_str raw cs 1) of None \<Rightarrow> []
      | Some i \<Rightarrow> [\<lparr>target_id = i, target_name = group_str raw cs 2\<rparr>]) (captures_iter regex_targets raw))"
    by (simp add: parse_boot_targets_def foldl_target_step foldl_option_step_targets empty_targets_def)
  with assms(2) obtain x where x: "x \<in> set (captures_iter regex_targets raw)"
    and tg: "tg \<in> set (case parse_u16 (group_str raw x 1) of None \<Rightarrow> []
      | Some i \<Rightarrow> [\<lparr>target_id = i, target_name = group_str raw x 2\<rparr>])"
    by auto
  from tg have "target_name tg = group_str raw x 2" by (auto split: option.splits)
  with target_names_caps [OF assms(1) x] show ?thesis by simp
qed

theorem target_names_single_field_witness:
  "utf8_valid (''Boot0007* Linux'' @ [tab] @ ''HD\<newline>'') \<and>
   \<lparr>target_id = 7, target_name = ''Linux''\<rparr> \<in> set (targets (parse_boot_targets (''Boot0007* Linux'' @ [tab] @ ''HD\<newline>''))) \<and>
   tab \<notin> set ''Linux'' \<and> newline \<notin> set ''Linux''"
proof -
  have v: "utf8_valid (''Boot0007* Linux'' @ [tab] @ ''HD\<newline>'')" by simp
  have p: "targets (parse_boot_targets (''Boot0007* Linux'' @ [tab] @ ''HD\<newline>'')) =
      [\<lparr>target_id = 7, target_name = ''Linux''\<rparr>]"
    by (simp add: parse_eval)
  then have m: "\<lparr>target_id = 7, target_name = ''Linux''\<rparr> \<in>
      set (targets (parse_boot_targets (''Boot0007* Linux'' @ [tab] @ ''HD\<newline>'')))" by simp
  have "tab \<notin> set (target_name \<lparr>target_id = 7::u16, target_name = ''Linux''\<rparr>) \<and>
      newline \<notin> set (target_name \<lparr>target_id = 7::u16, target_name = ''Linux''\<rparr>)"
    using v m by (rule target_names_single_field)
  with v m show ?thesis by simp
qed

end
