(* ===== verification/Cli.thy ===== *)
theory Cli
  imports Selection TargetNames
begin

text \<open>
  The program's entry point (\<open>src/src/main.rs\<close>, lines 46-68, 164-171 and
  357-400): \<open>get_boot_targets\<close> runs \<open>efibootmgr\<close>, panics when it cannot be
  started or its output is not UTF-8, and parses the output; \<open>main\<close> then
  lists, resolves \<open>--reboot-to\<close> (first) or \<open>--next\<close>, or runs the
  interactive selection and panics when it fails. The command line arrives as
  the values clap resolved (\<open>Arguments\<close>); the listing command's output is an
  input of the run. A run ends with an exit code, a panic, or still running
  (the interactive loop has not ended within the input trace).
\<close>

section \<open>Arguments and the listing\<close>

text \<open>\<open>Arguments\<close>; the fields \<open>list\<close>, \<open>next\<close> and \<open>reboot_to\<close>.\<close>

record arguments =
  arg_list :: "bool option"
  arg_next :: "bytes option"
  arg_reboot_to :: "bytes option"

text \<open>
  \<open>get_boot_targets\<close> (lines 164-171) on the outcome of
  \<open>Command::new("efibootmgr").output()\<close>: \<open>None\<close> when it could not be run,
  otherwise its standard output. \<open>None\<close> as result is one of the two panics.
\<close>

definition get_boot_targets :: "bytes option \<Rightarrow> boot_targets option" where
  "get_boot_targets out =
     (case out of
        None \<Rightarrow> None
      | Some raw \<Rightarrow> (if utf8_valid raw then Some (parse_boot_targets raw) else None))"

section \<open>main\<close>

datatype main_exit = ExitSuccess | ExitFailure | MainPanic | MainRunning

definition msg_not_found :: "bytes \<Rightarrow> bytes" where
  "msg_not_found dest = ''Could not find UEFI boot entry from specifier \"'' @ dest @ ''\"''"

text \<open>One \<open>DEST\<close> branch (lines 368-380 and 382-394) with its action.\<close>

definition dest_branch ::
  "boot_targets \<Rightarrow> bytes \<Rightarrow> (boot_target \<Rightarrow> io_event list) \<Rightarrow> main_exit \<times> io_event list" where
  "dest_branch bts dest act =
     (case lookup bts dest of
        Some t \<Rightarrow> (ExitSuccess, act t)
      | None \<Rightarrow> (ExitFailure, [Stderr (msg_not_found dest)]))"

definition main_prog ::
  "bool \<Rightarrow> arguments \<Rightarrow> bytes option \<Rightarrow> tui_env \<Rightarrow> main_exit \<times> term_state \<times> io_event list" where
  "main_prog ovf args listing env =
     (let ev0 = [Exec ''efibootmgr'' []] in
      case get_boot_targets listing of
        None \<Rightarrow> (MainPanic, normal_terminal, ev0)
      | Some bts \<Rightarrow>
          (if (case arg_list args of None \<Rightarrow> False | Some b \<Rightarrow> b) then
             (ExitSuccess, normal_terminal, ev0 @ map Stdout (print_list bts))
           else
             (case arg_reboot_to args of
                Some dest \<Rightarrow>
                  (let (r, ev) = dest_branch bts dest (reboot_to (commands env))
                   in (r, normal_terminal, ev0 @ ev))
              | None \<Rightarrow>
                  (case arg_next args of
                     Some dest \<Rightarrow>
                       (let (r, ev) = dest_branch bts dest (set_next_boot_wrapper (commands env))
                        in (r, normal_terminal, ev0 @ ev))
                   | None \<Rightarrow>
                       (let (r, ts, ev) = tui_selection ovf bts env normal_terminal in
                        (case r of
                           TuiOk \<Rightarrow> (ExitSuccess, ts, ev0 @ ev)
                         | TuiErr \<Rightarrow> (MainPanic, ts, ev0 @ ev)
                         | TuiPanic \<Rightarrow> (MainPanic, ts, ev0 @ ev)
                         | TuiPending \<Rightarrow> (MainRunning, ts, ev0 @ ev)))))))"

section \<open>Lemmas\<close>

lemma parse_empty: "parse_boot_targets [] = empty_targets"
  by (simp add: parse_eval)

lemma dest_branch_events:
  "snd (dest_branch bts dest (reboot_to env)) = [Stderr (msg_not_found dest)] \<or>
     (\<exists>a. snd (dest_branch bts dest (reboot_to env)) = dispatch env a)"
  "snd (dest_branch bts dest (set_next_boot_wrapper env)) = [Stderr (msg_not_found dest)] \<or>
     (\<exists>a. snd (dest_branch bts dest (set_next_boot_wrapper env)) = dispatch env a)"
  by (auto simp: dest_branch_def split: option.split intro: dispatch.simps(2) [symmetric]
      dispatch.simps(3) [symmetric])

lemma main_prog_evs:
  "snd (snd (main_prog ovf args listing env)) = Exec ''efibootmgr'' [] #
     (case get_boot_targets listing of
        None \<Rightarrow> []
      | Some bts \<Rightarrow>
          (if (case arg_list args of None \<Rightarrow> False | Some b \<Rightarrow> b) then map Stdout (print_list bts)
           else (case arg_reboot_to args of
                   Some dest \<Rightarrow> snd (dest_branch bts dest (reboot_to (commands env)))
                 | None \<Rightarrow>
                     (case arg_next args of
                        Some dest \<Rightarrow> snd (dest_branch bts dest (set_next_boot_wrapper (commands env)))
                      | None \<Rightarrow> snd (snd (tui_selection ovf bts env normal_terminal))))))"
  unfolding main_prog_def Let_def
  by (simp add: case_prod_beta split: option.split tui_result.split)

lemma main_prog_events:
  "\<exists>evs. snd (snd (main_prog ovf args listing env)) = Exec ''efibootmgr'' [] # evs \<and>
     (execs evs = [] \<or> (\<exists>a. execs evs = execs (dispatch (commands env) a)))"
proof (cases "get_boot_targets listing")
  case None
  then show ?thesis by (simp add: main_prog_evs)
next
  case (Some bts)
  let ?L = "case arg_list args of None \<Rightarrow> False | Some b \<Rightarrow> b"
  consider (l) "?L"
    | (r) dest where "\<not> ?L" "arg_reboot_to args = Some dest"
    | (n) dest where "\<not> ?L" "arg_reboot_to args = None" "arg_next args = Some dest"
    | (t) "\<not> ?L" "arg_reboot_to args = None" "arg_next args = None"
    by (cases "arg_reboot_to args"; cases "arg_next args") auto
  then show ?thesis
  proof cases
    case l
    then show ?thesis using Some by (simp add: main_prog_evs)
  next
    case r
    then show ?thesis using Some dest_branch_events(1) [of bts dest "commands env"]
      by (auto simp: main_prog_evs)
  next
    case n
    then show ?thesis using Some dest_branch_events(2) [of bts dest "commands env"]
      by (auto simp: main_prog_evs)
  next
    case t
    then show ?thesis using Some tui_selection_events [of ovf bts env normal_terminal]
      by (auto simp: main_prog_evs)
  qed
qed

section \<open>Claims\<close>

text \<open>C9: With --list, main runs only the listing command, prints one line per boot target (identifier, tab, name) and exits with success; --next and --reboot-to are then ignored.\<close>

lemma main_list_prints:
  assumes "get_boot_targets listing = Some bts" and "arg_list args = Some True"
  shows "main_prog ovf args listing env =
           (ExitSuccess, normal_terminal, Exec ''efibootmgr'' [] # map Stdout (print_list bts))"
  using assms by (simp add: main_prog_def)

lemma main_list_prints_witness:
  "main_prog False \<lparr>arg_list = Some True, arg_next = None, arg_reboot_to = Some ''zzz''\<rparr>
     (Some (''Boot0007* Linux'' @ [tab] @ ''HD\<newline>''))
     \<lparr>enter_alt_ok = True, raw_ok = True, term_new_ok = True, clear_ok = True, ticks = [],
      leave_alt_ok = True, disable_raw_ok = True, commands = (\<lambda>p a. Exited (Some 0))\<rparr> =
   (ExitSuccess, normal_terminal, [Exec ''efibootmgr'' [], Stdout (''7 '' @ [tab] @ '' Linux'')])"
proof -
  let ?b = "\<lparr>targets = [\<lparr>target_id = 7::u16, target_name = ''Linux''\<rparr>], current = None, next_boot = None\<rparr>"
  have g: "get_boot_targets (Some (''Boot0007* Linux'' @ [tab] @ ''HD\<newline>'')) = Some ?b"
    by (simp add: get_boot_targets_def cont_byte_def parse_eval)
  have m: "\<And>env. main_prog False \<lparr>arg_list = Some True, arg_next = None, arg_reboot_to = Some ''zzz''\<rparr>
     (Some (''Boot0007* Linux'' @ [tab] @ ''HD\<newline>'')) env =
     (ExitSuccess, normal_terminal, Exec ''efibootmgr'' [] # map Stdout (print_list ?b))"
    by (rule main_list_prints [OF g]) simp
  show ?thesis
    by (simp only: m) (simp add: print_list_def list_line_def dec_str.simps digit_char_def)
qed

text \<open>C8: When --reboot-to names a target that resolves, main exits with success after running the listing command and then exactly the reboot_to action on that target; --next, if also given, is ignored.\<close>

lemma main_reboot_to_first:
  assumes "get_boot_targets listing = Some bts" and "arg_list args \<noteq> Some True"
    and "arg_reboot_to args = Some dest" and "lookup bts dest = Some t"
  shows "main_prog ovf args listing env =
           (ExitSuccess, normal_terminal, Exec ''efibootmgr'' [] # reboot_to (commands env) t)"
  using assms by (cases "arg_list args") (auto simp: main_prog_def dest_branch_def)

lemma main_reboot_to_first_witness:
  "main_prog True \<lparr>arg_list = None, arg_next = Some ''x'', arg_reboot_to = Some ''Li''\<rparr>
     (Some (''Boot0007* Linux'' @ [tab] @ ''HD\<newline>''))
     \<lparr>enter_alt_ok = True, raw_ok = True, term_new_ok = True, clear_ok = True, ticks = [],
      leave_alt_ok = True, disable_raw_ok = True, commands = (\<lambda>p a. Exited (Some 0))\<rparr> =
   (ExitSuccess, normal_terminal,
    [Exec ''efibootmgr'' [], Exec ''efibootmgr'' [''--bootnext'', ''0007''], Exec ''shutdown'' [''-r'', ''now'']])"
proof -
  let ?t = "\<lparr>target_id = 7::u16, target_name = ''Linux''\<rparr>"
  let ?b = "\<lparr>targets = [?t], current = None, next_boot = None\<rparr>"
  have g: "get_boot_targets (Some (''Boot0007* Linux'' @ [tab] @ ''HD\<newline>'')) = Some ?b"
    by (simp add: get_boot_targets_def cont_byte_def parse_eval)
  have l: "lookup ?b ''Li'' = Some ?t"
    by (simp add: lookup_def parse_u16_def is_ascii_digit_def starts_with_def)
  have m: "\<And>env. main_prog True \<lparr>arg_list = None, arg_next = Some ''x'', arg_reboot_to = Some ''Li''\<rparr>
     (Some (''Boot0007* Linux'' @ [tab] @ ''HD\<newline>'')) env =
     (ExitSuccess, normal_terminal, Exec ''efibootmgr'' [] # reboot_to (commands env) ?t)"
    by (rule main_reboot_to_first [OF g _ _ l]) simp_all
  show ?thesis
    by (simp only: m) (simp add: reboot_to_def set_next_boot_def report_set_next_def success_def
        bootnext_arg_eval model_simps)
qed

text \<open>C7: When --reboot-to names no target, main prints the not-found message on the error stream and exits with failure; besides the listing command, no external command is run.\<close>

lemma main_unresolved_dest_fails:
  assumes "get_boot_targets listing = Some bts" and "arg_list args \<noteq> Some True"
    and "arg_reboot_to args = Some dest" and "lookup bts dest = None"
  shows "main_prog ovf args listing env =
           (ExitFailure, normal_terminal, [Exec ''efibootmgr'' [], Stderr (msg_not_found dest)])"
  using assms by (cases "arg_list args") (auto simp: main_prog_def dest_branch_def)

lemma main_unresolved_dest_fails_witness:
  "main_prog True \<lparr>arg_list = Some False, arg_next = None, arg_reboot_to = Some ''zzz''\<rparr> (Some [])
     \<lparr>enter_alt_ok = True, raw_ok = True, term_new_ok = True, clear_ok = True, ticks = [],
      leave_alt_ok = True, disable_raw_ok = True, commands = (\<lambda>p a. Exited (Some 0))\<rparr> =
   (ExitFailure, normal_terminal, [Exec ''efibootmgr'' [], Stderr (msg_not_found ''zzz'')])"
proof -
  have g: "get_boot_targets (Some []) = Some empty_targets"
    by (simp add: get_boot_targets_def parse_empty)
  have l: "lookup empty_targets ''zzz'' = None"
    by (simp add: lookup_def empty_targets_def split: option.split)
  show ?thesis by (rule main_unresolved_dest_fails [OF g _ _ l]) simp_all
qed

text \<open>C10: With no flags, once the interactive loop ends by a key and the terminal is restored, main exits with success whatever the dispatched commands did, leaving the terminal in its normal mode.\<close>

lemma main_interactive_exit_success:
  assumes "get_boot_targets listing = Some bts" and "arg_list args \<noteq> Some True"
    and "arg_reboot_to args = None" and "arg_next args = None"
    and "enter_alt_ok env" "raw_ok env" "term_new_ok env" "clear_ok env"
    and "tui_loop ovf bts initial_list_state (ticks env) = LoopBreak a"
    and "leave_alt_ok env" "disable_raw_ok env"
  shows "main_prog ovf args listing env =
           (ExitSuccess, normal_terminal, Exec ''efibootmgr'' [] # dispatch (commands env) a)"
  using assms by (cases "arg_list args") (auto simp: main_prog_def tui_selection_def normal_terminal_def)

lemma main_interactive_exit_success_witness:
  "main_prog True \<lparr>arg_list = None, arg_next = None, arg_reboot_to = None\<rparr> (Some [])
     \<lparr>enter_alt_ok = True, raw_ok = True, term_new_ok = True, clear_ok = True,
      ticks = [key_tick True KEsc], leave_alt_ok = True, disable_raw_ok = True,
      commands = (\<lambda>p a. LaunchError)\<rparr> =
   (ExitSuccess, normal_terminal, [Exec ''efibootmgr'' []])"
proof -
  have g: "get_boot_targets (Some []) = Some empty_targets"
    by (simp add: get_boot_targets_def parse_empty)
  let ?env = "\<lparr>enter_alt_ok = True, raw_ok = True, term_new_ok = True, clear_ok = True,
      ticks = [key_tick True KEsc], leave_alt_ok = True, disable_raw_ok = True,
      commands = (\<lambda>p (a::bytes list). LaunchError)\<rparr>"
  have m: "main_prog True \<lparr>arg_list = None, arg_next = None, arg_reboot_to = None\<rparr> (Some []) ?env =
   (ExitSuccess, normal_terminal, Exec ''efibootmgr'' [] # dispatch (commands ?env) ANone)"
    by (rule main_interactive_exit_success [OF g])
      (simp_all add: key_tick_def loop_iter_def handle_key_def)
  then show ?thesis by simp
qed

text \<open>C36: When the listing command's output is not valid UTF-8, main panics right after running it.\<close>

lemma main_invalid_utf8_panics:
  assumes "\<not> utf8_valid raw"
  shows "main_prog ovf args (Some raw) env = (MainPanic, normal_terminal, [Exec ''efibootmgr'' []])"
  using assms by (simp add: main_prog_def get_boot_targets_def)

lemma main_invalid_utf8_panics_witness:
  "main_prog True \<lparr>arg_list = Some True, arg_next = None, arg_reboot_to = None\<rparr> (Some [CHR 0xFF])
     \<lparr>enter_alt_ok = True, raw_ok = True, term_new_ok = True, clear_ok = True, ticks = [],
      leave_alt_ok = True, disable_raw_ok = True, commands = (\<lambda>p a. Exited (Some 0))\<rparr> =
   (MainPanic, normal_terminal, [Exec ''efibootmgr'' []])"
  by (rule main_invalid_utf8_panics) simp

text \<open>C11: Every run of main first runs efibootmgr to list the entries and then at most two more
  commands, each efibootmgr or shutdown: the program runs no other command and never retries.\<close>

theorem main_runs_listing_then_at_most_two:
  "\<exists>rest. execs (snd (snd (main_prog ovf args listing env))) = (''efibootmgr'', []) # rest \<and>
     length rest \<le> 2 \<and> fst ` set rest \<subseteq> {''efibootmgr'', ''shutdown''}"
proof -
  obtain evs where e: "snd (snd (main_prog ovf args listing env)) = Exec ''efibootmgr'' [] # evs"
    and r: "execs evs = [] \<or> (\<exists>a. execs evs = execs (dispatch (commands env) a))"
    using main_prog_events by blast
  have "length (execs evs) \<le> 2 \<and> fst ` set (execs evs) \<subseteq> {''efibootmgr'', ''shutdown''}"
    using r
  proof
    assume "\<exists>a. execs evs = execs (dispatch (commands env) a)"
    then obtain a where "execs evs = execs (dispatch (commands env) a)" by blast
    then show ?thesis using dispatch_execs_bound [of "commands env" a] by simp
  qed simp
  with e show ?thesis by simp
qed

end
