(* ===== verification/Render.thy ===== *)
theory Render
  imports ListState
begin

text \<open>
  The drawing of the boot entry list (\<open>src/src/main.rs\<close>, lines 235-268) as far as it
  decides what the user sees: \<open>Block::bordered\<close> leaves an inner area one cell
  smaller on each side, and \<open>List::render\<close> (ratatui 0.28) corrects the
  selection, computes the window of visible rows from the state's scroll offset
  (\<open>get_items_bounds\<close>, translated loop by loop for items one line high: a label is
  one line, see \<open>TargetNames\<close>), stores the window's start as the new offset and draws
  those rows, highlighting the selected one. Colours, border glyphs, titles and the
  clipping of long labels are not modelled. \<open>list_view\<close> is the full
  \<open>ListState\<close> (selection and offset); the theory \<open>ListState\<close> keeps only the
  selection, and \<open>list_render_refines_clamp\<close> shows that its \<open>render_clamp\<close> is
  the selection part of this render.
\<close>

section \<open>State and frame\<close>

record list_view =
  lv_selected :: "usize option"
  lv_offset :: usize

text \<open>\<open>Block::bordered().inner(area)\<close>: one cell of border on each side.\<close>

definition inner_size :: "u16 \<Rightarrow> u16 \<Rightarrow> nat \<times> nat" where
  "inner_size w h = (unat w - 2, unat h - 2)"

section \<open>The visible window (\<open>List::get_items_bounds\<close>, items one line high)\<close>

fun fill_window :: "nat \<Rightarrow> nat \<Rightarrow> nat \<Rightarrow> nat \<Rightarrow> nat \<times> nat" where
  "fill_window 0 max_height height_from_offset last_visible = (height_from_offset, last_visible)"
| "fill_window (Suc k) max_height height_from_offset last_visible =
     (if height_from_offset + 1 > max_height then (height_from_offset, last_visible)
      else fill_window k max_height (height_from_offset + 1) (Suc last_visible))"

fun shrink_front :: "nat \<Rightarrow> nat \<Rightarrow> nat \<Rightarrow> nat \<times> nat" where
  "shrink_front max_height first_visible height_from_offset =
     (if height_from_offset > max_height then shrink_front max_height (Suc first_visible) (height_from_offset - 1) else (first_visible, height_from_offset))"

fun shrink_back :: "nat \<Rightarrow> nat \<Rightarrow> nat \<Rightarrow> nat \<times> nat" where
  "shrink_back max_height last_visible height_from_offset =
     (if height_from_offset > max_height then shrink_back max_height (last_visible - 1) (height_from_offset - 1) else (last_visible, height_from_offset))"

declare shrink_front.simps [simp del] shrink_back.simps [simp del]

function scroll_down :: "nat \<Rightarrow> nat \<Rightarrow> nat \<Rightarrow> nat \<Rightarrow> nat \<Rightarrow> nat \<times> nat \<times> nat" where
  "scroll_down idx max_height first_visible last_visible height_from_offset =
     (if last_visible \<le> idx then
        (let (first_visible', height_from_offset') = shrink_front max_height first_visible (height_from_offset + 1)
         in scroll_down idx max_height first_visible' (Suc last_visible) height_from_offset')
      else (first_visible, last_visible, height_from_offset))"
  by pat_completeness auto
termination
  by (relation "measure (\<lambda>(idx, max_height, first_visible, last_visible, height_from_offset). Suc idx - last_visible)") auto

function scroll_up :: "nat \<Rightarrow> nat \<Rightarrow> nat \<Rightarrow> nat \<Rightarrow> nat \<Rightarrow> nat \<times> nat \<times> nat" where
  "scroll_up idx max_height first_visible last_visible height_from_offset =
     (if idx < first_visible then
        (let (last_visible', height_from_offset') = shrink_back max_height last_visible (height_from_offset + 1)
         in scroll_up idx max_height (first_visible - 1) last_visible' height_from_offset')
      else (first_visible, last_visible, height_from_offset))"
  by pat_completeness auto
termination
  by (relation "measure (\<lambda>(idx, max_height, first_visible, last_visible, height_from_offset). first_visible)") auto

declare scroll_down.simps [simp del] scroll_up.simps [simp del]

definition items_bounds :: "nat \<Rightarrow> nat option \<Rightarrow> nat \<Rightarrow> nat \<Rightarrow> nat \<times> nat" where
  "items_bounds n sel offset max_height =
     (let offset' = min offset (n - 1);
          (height_from_offset, last_visible) = fill_window (n - offset') max_height 0 offset';
          idx = (case sel of Some s \<Rightarrow> min s (n - 1) | None \<Rightarrow> offset');
          (first1, last1, height1) = scroll_down idx max_height offset' last_visible height_from_offset;
          (first2, last2, height2) = scroll_up idx max_height first1 last1 height1
      in (first2, last2))"

text \<open>The window the list shows, as a reference: the offset is kept when the selected
  item is visible from it, otherwise the window moves just far enough.\<close>

definition window_ref :: "nat \<Rightarrow> nat \<Rightarrow> nat \<Rightarrow> nat \<Rightarrow> nat \<times> nat" where
  "window_ref n s offset max_height =
     (let off = min offset (n - 1) in
      if s < off then (s, min n (s + max_height))
      else if s < off + max_height then (off, min n (off + max_height))
      else (Suc s - max_height, Suc s))"

section \<open>Rendering the list\<close>

text \<open>
  \<open>frame.render_stateful_widget(list, area, &mut list_state)\<close>: the new state
  and the rows drawn, top to bottom, each with whether it is highlighted.
\<close>

definition list_render ::
  "bytes list \<Rightarrow> u16 \<Rightarrow> u16 \<Rightarrow> list_view \<Rightarrow> list_view \<times> (bytes \<times> bool) list" where
  "list_render items w h lv =
     (let (iw, ih) = inner_size w h; n = length items in
      if iw = 0 \<or> ih = 0 then (lv, [])
      else if n = 0 then (\<lparr>lv_selected = None, lv_offset = 0\<rparr>, [])
      else
        (let sel = (case lv_selected lv of
                      Some s \<Rightarrow> Some (if of_nat n \<le> s then saturating_sub (of_nat n) 1 else s)
                    | None \<Rightarrow> None);
             (first_visible, last_visible) = items_bounds n (map_option unat sel) (unat (lv_offset lv)) ih
         in (\<lparr>lv_selected = sel, lv_offset = of_nat first_visible\<rparr>,
             map (\<lambda>i. (items ! i, sel = Some (of_nat i))) [first_visible..<last_visible])))"

section \<open>Lemmas\<close>

text \<open>Each loop in closed form, then the whole computation equals the reference window.\<close>

lemma fill_window_eq:
  "height \<le> max_height \<Longrightarrow>
     fill_window k max_height height l = (height + min k (max_height - height), l + min k (max_height - height))"
  by (induction k arbitrary: height l) (auto simp: min_def)

lemma shrink_front_eq:
  "shrink_front max_height f height = (if max_height < height then (f + (height - max_height), max_height) else (f, height))"
  by (induction max_height f height rule: shrink_front.induct) (subst shrink_front.simps, simp, arith)

lemma shrink_back_eq:
  "shrink_back max_height l height = (if max_height < height then (l - (height - max_height), max_height) else (l, height))"
proof (induction height arbitrary: l)
  case 0
  then show ?case by (subst shrink_back.simps) simp
next
  case (Suc k)
  show ?case
  proof (cases "max_height < Suc k")
    case True
    then have "shrink_back max_height l (Suc k) = shrink_back max_height (l - 1) k"
      by (subst shrink_back.simps) simp
    also have "\<dots> = (l - (Suc k - max_height), max_height)"
      using Suc.IH [of "l - 1"] True by (cases "max_height < k") (simp_all add: Suc_diff_le)
    finally show ?thesis using True by simp
  next
    case False
    then show ?thesis by (subst shrink_back.simps) simp
  qed
qed

lemma scroll_down_eq:
  "height = l - f \<Longrightarrow> f \<le> l \<Longrightarrow> height \<le> max_height \<Longrightarrow>
     scroll_down idx max_height f l height =
       (if l \<le> idx then (Suc idx - min max_height (Suc idx - f), Suc idx, min max_height (Suc idx - f))
        else (f, l, height))"
proof (induction idx max_height f l height rule: scroll_down.induct)
  case (1 idx max_height f l height)
  show ?case
  proof (cases "l \<le> idx")
    case False
    then show ?thesis by (subst scroll_down.simps) simp
  next
    case True
    obtain f1 h1 where s: "shrink_front max_height f (height + 1) = (f1, h1)"
      by (cases "shrink_front max_height f (height + 1)")
    have v: "(f1 = Suc f \<and> h1 = max_height \<and> height = max_height) \<or> (f1 = f \<and> h1 = height + 1 \<and> height < max_height)"
      using s "1.prems" by (auto simp: shrink_front_eq split: if_splits)
    then have inv: "h1 = Suc l - f1" "f1 \<le> Suc l" "h1 \<le> max_height" using "1.prems" by auto
    have ih: "scroll_down idx max_height f1 (Suc l) h1 =
       (if Suc l \<le> idx then (Suc idx - min max_height (Suc idx - f1), Suc idx, min max_height (Suc idx - f1))
        else (f1, Suc l, h1))"
      using "1.IH" [OF True refl s [symmetric]] inv by blast
    have "scroll_down idx max_height f l height = scroll_down idx max_height f1 (Suc l) h1"
      using True s by (subst scroll_down.simps) simp
    also have "\<dots> = (Suc idx - min max_height (Suc idx - f), Suc idx, min max_height (Suc idx - f))"
      using ih v "1.prems" True by (auto simp: min_def)
    finally show ?thesis using True by simp
  qed
qed

lemma scroll_up_eq:
  "height = l - f \<Longrightarrow> f \<le> l \<Longrightarrow> height \<le> max_height \<Longrightarrow>
     scroll_up idx max_height f l height =
       (if idx < f then (idx, min l (idx + max_height), min l (idx + max_height) - idx) else (f, l, height))"
proof (induction idx max_height f l height rule: scroll_up.induct)
  case (1 idx max_height f l height)
  show ?case
  proof (cases "idx < f")
    case False
    then show ?thesis by (subst scroll_up.simps) simp
  next
    case True
    obtain l1 h1 where s: "shrink_back max_height l (height + 1) = (l1, h1)"
      by (cases "shrink_back max_height l (height + 1)")
    have v: "(l1 = l - 1 \<and> h1 = max_height \<and> height = max_height) \<or> (l1 = l \<and> h1 = height + 1 \<and> height < max_height)"
      using s "1.prems" by (auto simp: shrink_back_eq split: if_splits)
    then have inv: "h1 = l1 - (f - 1)" "f - 1 \<le> l1" "h1 \<le> max_height" using "1.prems" True by auto
    have ih: "scroll_up idx max_height (f - 1) l1 h1 =
       (if idx < f - 1 then (idx, min l1 (idx + max_height), min l1 (idx + max_height) - idx)
        else (f - 1, l1, h1))"
      using "1.IH" [OF True refl s [symmetric]] inv by blast
    have "scroll_up idx max_height f l height = scroll_up idx max_height (f - 1) l1 h1"
      using True s by (subst scroll_up.simps) simp
    also have "\<dots> = (idx, min l (idx + max_height), min l (idx + max_height) - idx)"
      using ih v "1.prems" True by (auto simp: min_def; arith)
    finally show ?thesis using True by simp
  qed
qed

lemma items_bounds_window:
  assumes "0 < max_height" and "s < n"
  shows "items_bounds n (Some s) offset max_height = window_ref n s offset max_height"
proof -
  define o' where "o' = min offset (n - 1)"
  define h where "h = min (n - o') max_height"
  have f: "fill_window (n - o') max_height 0 o' = (h, o' + h)"
    using fill_window_eq [of 0 max_height "n - o'" o'] by (simp add: h_def min.commute)
  have ms: "min s (n - Suc 0) = s" using assms by simp
  have ib: "items_bounds n (Some s) offset max_height =
      (let (f1, l1, h1) = scroll_down s max_height o' (o' + h) h;
           (f2, l2, h2) = scroll_up s max_height f1 l1 h1 in (f2, l2))"
    unfolding items_bounds_def Let_def o'_def [symmetric] f by (simp add: ms)
  have oh: "h = o' + h - o'" "o' \<le> o' + h" "h \<le> max_height" by (simp_all add: h_def)
  show ?thesis
  proof (cases "o' + h \<le> s")
    case True
    then have hm: "h = max_height" using assms by (auto simp: h_def min_def o'_def split: if_splits)
    then have le: "max_height \<le> s" "o' + max_height \<le> s" using True by simp_all
    have d: "scroll_down s max_height o' (o' + h) h = (Suc s - max_height, Suc s, max_height)"
      using scroll_down_eq [OF oh] True le by (simp add: hm min_def)
    have u: "scroll_up s max_height (Suc s - max_height) (Suc s) max_height = (Suc s - max_height, Suc s, max_height)"
      using assms le by (subst scroll_up_eq) auto
    have "window_ref n s offset max_height = (Suc s - max_height, Suc s)"
      unfolding window_ref_def Let_def o'_def [symmetric] using le assms by simp
    then show ?thesis using ib d u by simp
  next
    case False
    have d: "scroll_down s max_height o' (o' + h) h = (o', o' + h, h)"
      using scroll_down_eq [OF oh] False by simp
    have u: "scroll_up s max_height o' (o' + h) h =
        (if s < o' then (s, min (o' + h) (s + max_height), min (o' + h) (s + max_height) - s) else (o', o' + h, h))"
      using scroll_up_eq [OF oh] by simp
    have oh2: "o' + h = min n (o' + max_height)" "o' \<le> n" using assms by (auto simp: h_def o'_def min_def)
    have "s < o' + max_height" using False assms oh2 by (auto simp: min_def split: if_splits)
    then have "window_ref n s offset max_height =
        (if s < o' then (s, min n (s + max_height)) else (o', min n (o' + max_height)))"
      unfolding window_ref_def Let_def o'_def [symmetric] by simp
    moreover have "s < o' \<Longrightarrow> min (o' + h) (s + max_height) = min n (s + max_height)"
      using oh2 by (auto simp: min_def)
    ultimately show ?thesis using ib d u oh2 by auto
  qed
qed

lemma filter_upt_eq: "f \<le> k \<Longrightarrow> k < l \<Longrightarrow> filter (\<lambda>i. i = k) [f..<l] = [k]"
proof (induction l)
  case 0
  then show ?case by simp
next
  case (Suc l)
  show ?case
  proof (cases "k = l")
    case True
    then have "filter (\<lambda>i. i = k) [f..<l] = []" by (auto simp: filter_empty_conv)
    with True Suc.prems show ?thesis by simp
  next
    case False
    with Suc show ?thesis by simp
  qed
qed

lemma window_ref_bounds:
  assumes "0 < max_height" and "s < n"
  shows "fst (window_ref n s offset max_height) \<le> s \<and> s < snd (window_ref n s offset max_height) \<and>
         snd (window_ref n s offset max_height) \<le> n \<and>
         snd (window_ref n s offset max_height) - fst (window_ref n s offset max_height) \<le> max_height"
  using assms by (auto simp: window_ref_def Let_def min_def)

lemma render_sel_bound:
  assumes "0 < n" and "n < 2 ^ 64"
  shows "unat (if of_nat n \<le> s then saturating_sub (of_nat n) 1 else (s :: usize)) < n"
proof (cases "of_nat n \<le> s")
  case True
  have "saturating_sub (of_nat n) 1 = (of_nat (n - 1) :: usize)" using assms by (intro saturating_sub_one) simp_all
  moreover have "unat (of_nat (n - 1) :: usize) = n - 1" using assms by (simp add: unat_of_nat_usize del: of_nat_diff)
  ultimately show ?thesis using True assms by simp
next
  case False
  then show ?thesis using assms by (simp add: word_le_nat_alt unat_of_nat_usize)
qed

text \<open>The selection after rendering is \<open>render_clamp\<close>'s, the list's area being non-empty exactly
  when the bordered block's inner area is: the scroll offset never influences the selection.\<close>

lemma list_render_refines_clamp:
  "lv_selected (fst (list_render items w h lv)) =
     selected (render_clamp (length items) (fst (inner_size w h) \<noteq> 0 \<and> snd (inner_size w h) \<noteq> 0)
       \<lparr>selected = lv_selected lv\<rparr>)"
  by (simp add: list_render_def render_clamp_def Let_def case_prod_beta split: option.split)

text \<open>The shape of a frame drawn with entries and a selection: the clamped selection, the window
  of the reference definition, and the rows of that window.\<close>

lemma list_render_window:
  assumes "items \<noteq> []" and "length items < 2 ^ 64" and "inner_size w h = (iw, ih)"
    and "iw \<noteq> 0" and "0 < ih" and "lv_selected lv = Some s0"
  obtains s f l where
    "list_render items w h lv =
       (\<lparr>lv_selected = Some s, lv_offset = of_nat f\<rparr>, map (\<lambda>i. (items ! i, Some s = Some (of_nat i))) [f..<l])"
    "s = (if of_nat (length items) \<le> s0 then saturating_sub (of_nat (length items)) 1 else s0)"
    "unat s < length items" "(f, l) = window_ref (length items) (unat s) (unat (lv_offset lv)) ih"
    "f \<le> unat s" "unat s < l" "l \<le> length items" "l - f \<le> ih"
proof -
  let ?n = "length items"
  define s where "s = (if of_nat ?n \<le> s0 then saturating_sub (of_nat ?n) 1 else s0)"
  have sn: "unat s < ?n" unfolding s_def using assms(1,2) by (intro render_sel_bound) simp_all
  obtain f l where fl: "items_bounds ?n (Some (unat s)) (unat (lv_offset lv)) ih = (f, l)"
    by (cases "items_bounds ?n (Some (unat s)) (unat (lv_offset lv)) ih")
  have w: "(f, l) = window_ref ?n (unat s) (unat (lv_offset lv)) ih"
    using items_bounds_window [OF assms(5) sn] fl by simp
  have win: "f \<le> unat s" "unat s < l" "l \<le> ?n" "l - f \<le> ih"
    using window_ref_bounds [OF assms(5) sn, of "unat (lv_offset lv)"] unfolding w [symmetric] by simp_all
  have r: "list_render items w h lv =
      (\<lparr>lv_selected = Some s, lv_offset = of_nat f\<rparr>, map (\<lambda>i. (items ! i, Some s = Some (of_nat i))) [f..<l])"
    using assms(1,3,4,5,6) fl by (simp add: list_render_def Let_def s_def)
  show ?thesis by (rule that [OF r s_def sn w win])
qed

text \<open>In a window that holds the selection, exactly the selected row is highlighted.\<close>

lemma window_highlight:
  assumes "unat s < length items" and "length items < 2 ^ 64" and "f \<le> unat s" and "unat s < l"
    and "l \<le> length items"
  shows "filter snd (map (\<lambda>i. (items ! i, Some s = Some (of_nat i :: usize))) [f..<l]) = [(items ! unat s, True)]"
proof -
  have eq: "(Some s = Some (of_nat i :: usize)) \<longleftrightarrow> i = unat s" if "i < length items" for i
    using that assms(2) by (auto simp: unat_of_nat_usize)
  have "filter (\<lambda>i. Some s = Some (of_nat i :: usize)) [f..<l] = filter (\<lambda>i. i = unat s) [f..<l]"
    using assms(5) eq by (intro filter_cong) auto
  also have "\<dots> = [unat s]" using assms(3,4) by (intro filter_upt_eq) simp_all
  finally show ?thesis by (simp add: filter_map comp_def)
qed

section \<open>Claims\<close>

text \<open>C16: When the list is drawn with entries and a selection, the selected entry is among the
  rows drawn and is the only highlighted one, and no more rows are drawn than the inner area holds.\<close>

theorem list_render_shows_selected:
  assumes "items \<noteq> []" and "length items < 2 ^ 64"
    and "fst (inner_size w h) \<noteq> 0" and "snd (inner_size w h) \<noteq> 0" and "lv_selected lv \<noteq> None"
  shows "\<exists>s. lv_selected (fst (list_render items w h lv)) = Some s \<and> unat s < length items \<and>
           filter snd (snd (list_render items w h lv)) = [(items ! unat s, True)] \<and>
           length (snd (list_render items w h lv)) \<le> snd (inner_size w h)"
proof -
  obtain iw ih where wh: "inner_size w h = (iw, ih)" by (cases "inner_size w h")
  obtain s0 where s0: "lv_selected lv = Some s0" using assms(5) by blast
  have iw: "iw \<noteq> 0" and ih: "0 < ih" using assms(3,4) wh by simp_all
  obtain s f l where r: "list_render items w h lv =
       (\<lparr>lv_selected = Some s, lv_offset = of_nat f\<rparr>, map (\<lambda>i. (items ! i, Some s = Some (of_nat i))) [f..<l])"
    and "s = (if of_nat (length items) \<le> s0 then saturating_sub (of_nat (length items)) 1 else s0)"
    and sn: "unat s < length items" and "(f, l) = window_ref (length items) (unat s) (unat (lv_offset lv)) ih"
    and win: "f \<le> unat s" "unat s < l" "l \<le> length items" "l - f \<le> ih"
    by (rule list_render_window [OF assms(1,2) wh iw ih s0])
  have "filter snd (snd (list_render items w h lv)) = [(items ! unat s, True)]"
    using r window_highlight [OF sn assms(2) win(1-3)] by simp
  moreover have "length (snd (list_render items w h lv)) \<le> snd (inner_size w h)" using r win wh by simp
  ultimately show ?thesis using r sn by auto
qed

theorem list_render_shows_selected_witness:
  "\<exists>s. lv_selected (fst (list_render [''a'', ''b'', ''c''] 4 4 \<lparr>lv_selected = Some 2, lv_offset = 0\<rparr>)) = Some s \<and>
     unat s < 3 \<and>
     filter snd (snd (list_render [''a'', ''b'', ''c''] 4 4 \<lparr>lv_selected = Some 2, lv_offset = 0\<rparr>)) =
       [([''a'', ''b'', ''c''] ! unat s, True)] \<and>
     length (snd (list_render [''a'', ''b'', ''c''] 4 4 \<lparr>lv_selected = Some 2, lv_offset = 0\<rparr>)) \<le> 2"
  using list_render_shows_selected [of "[''a'', ''b'', ''c'']" 4 4 "\<lparr>lv_selected = Some 2, lv_offset = 0\<rparr>"]
  by (simp add: inner_size_def numeral_3_eq_3)

text \<open>C17: The scroll loops of get_items_bounds compute the reference window: the offset stays when
  the selected entry is visible from it, and otherwise the list scrolls just far enough to show it
  (at the top when scrolling up, at the bottom when scrolling down).\<close>

theorem list_render_offset:
  assumes "items \<noteq> []" and "length items < 2 ^ 64"
    and "fst (inner_size w h) \<noteq> 0" and "snd (inner_size w h) \<noteq> 0"
    and "lv_selected lv = Some s" and "s < of_nat (length items)"
  shows "unat (lv_offset (fst (list_render items w h lv))) =
           fst (window_ref (length items) (unat s) (unat (lv_offset lv)) (snd (inner_size w h)))"
proof -
  obtain iw ih where wh: "inner_size w h = (iw, ih)" by (cases "inner_size w h")
  have nle: "\<not> of_nat (length items) \<le> s" using assms(6) by simp
  have iw: "iw \<noteq> 0" and ih: "0 < ih" using assms(3,4) wh by simp_all
  obtain s' f l where r: "list_render items w h lv =
       (\<lparr>lv_selected = Some s', lv_offset = of_nat f\<rparr>, map (\<lambda>i. (items ! i, Some s' = Some (of_nat i))) [f..<l])"
    and s': "s' = (if of_nat (length items) \<le> s then saturating_sub (of_nat (length items)) 1 else s)"
    and sn: "unat s' < length items" and w: "(f, l) = window_ref (length items) (unat s') (unat (lv_offset lv)) ih"
    and fs: "f \<le> unat s'" "unat s' < l" "l \<le> length items" "l - f \<le> ih"
    by (rule list_render_window [OF assms(1,2) wh iw ih assms(5)])
  have fu: "unat (of_nat f :: usize) = f" using fs(1) sn assms(2) by (simp add: unat_of_nat_usize)
  have "lv_offset (fst (list_render items w h lv)) = of_nat f" using r by simp
  moreover have "f = fst (window_ref (length items) (unat s) (unat (lv_offset lv)) ih)"
    using w s' nle by (metis fst_conv)
  ultimately show ?thesis using fu wh by simp
qed

theorem list_render_offset_witness:
  "unat (lv_offset (fst (list_render [''a'', ''b'', ''c''] 4 4 \<lparr>lv_selected = Some 2, lv_offset = 0\<rparr>))) = 1"
  using list_render_offset [of "[''a'', ''b'', ''c'']" 4 4 "\<lparr>lv_selected = Some 2, lv_offset = 0\<rparr>" 2]
  by (simp add: inner_size_def window_ref_def)

end
