(* ===== verification/Screen.thy ===== *)
theory Screen
  imports Selection Render
begin

text \<open>
  The interactive loop of \<open>tui_selection\<close> (\<open>src/src/main.rs\<close>, lines 230-341) with
  the drawing of \<open>Render\<close> in place of the selection-only correction of the loop
  model in \<open>Selection\<close>: the loop keeps the whole \<open>ListState\<close> (selection and
  scroll offset), every iteration draws the list into the frame the terminal has
  then and records the rows shown, and the key handler of \<open>Selection\<close> acts on the
  selection. \<open>ListState::select\<close> keeps the offset unless it is given \<open>None\<close>,
  and every selection the key handler makes is \<open>Some\<close>; so a key leaves the
  offset as drawing left it. A frame whose drawing fails is not shown.

  The loop refines the loop model of \<open>Selection\<close> (\<open>screen_loop_refines\<close>):
  forgetting the offset and the frames, and abstracting each frame size to whether
  the list's inner area is empty, gives \<open>tui_loop\<close> on the same input.
\<close>

section \<open>State and input\<close>

text \<open>One iteration's environment: whether \<open>terminal.draw\<close> succeeds, the frame size
  (\<open>frame.size()\<close>, line 236) and what polling returned.\<close>

record screen_tick =
  sc_draw_ok :: bool
  sc_width :: u16
  sc_height :: u16
  sc_input :: poll_input

text \<open>\<open>ListState::default().with_selected(Some(0))\<close>, line 230.\<close>

definition initial_list_view :: list_view where
  "initial_list_view = \<lparr>lv_selected = Some 0, lv_offset = 0\<rparr>"

definition ls_of :: "list_view \<Rightarrow> list_state" where
  "ls_of lv = \<lparr>selected = lv_selected lv\<rparr>"

definition with_list_state :: "list_view \<Rightarrow> list_state \<Rightarrow> list_view" where
  "with_list_state lv ls = lv\<lparr>lv_selected := selected ls\<rparr>"

text \<open>What the loop model of \<open>Selection\<close> sees of one iteration.\<close>

definition tick_of :: "screen_tick \<Rightarrow> tick" where
  "tick_of st =
     \<lparr>draw_ok = sc_draw_ok st,
      area_ok = (fst (inner_size (sc_width st) (sc_height st)) \<noteq> 0 \<and>
                 snd (inner_size (sc_width st) (sc_height st)) \<noteq> 0),
      input = sc_input st\<rparr>"

section \<open>The loop\<close>

type_synonym frame = "(bytes \<times> bool) list"

datatype screen_step = SNext list_view | SStop loop_result

text \<open>One iteration (lines 232-341): draw, then poll and handle the key.\<close>

definition screen_iter :: "bool \<Rightarrow> boot_targets \<Rightarrow> list_view \<Rightarrow> screen_tick \<Rightarrow> screen_step \<times> frame option" where
  "screen_iter ovf bts lv st =
     (if \<not> sc_draw_ok st then (SStop LoopIoErr, None)
      else
        (let (lv1, rows) = list_render (get_names bts) (sc_width st) (sc_height st) lv;
             step = (case sc_input st of
                       PollErr \<Rightarrow> SStop LoopIoErr
                     | PollTimeout \<Rightarrow> SNext lv1
                     | ReadErr \<Rightarrow> SStop LoopIoErr
                     | Read OtherEvent \<Rightarrow> SNext lv1
                     | Read (Key k) \<Rightarrow>
                         (if kind k \<noteq> Press then SNext lv1
                          else
                            (case handle_key ovf bts (ls_of lv1) k of
                               KContinue ls2 \<Rightarrow> SNext (with_list_state lv1 ls2)
                             | KBreak a \<Rightarrow> SStop (LoopBreak a)
                             | KPanic \<Rightarrow> SStop LoopPanic)))
         in (step, Some rows)))"

text \<open>The loop over a finite trace: its result and the frames shown, in order.\<close>

fun screen_loop :: "bool \<Rightarrow> boot_targets \<Rightarrow> list_view \<Rightarrow> screen_tick list \<Rightarrow> loop_result \<times> frame list" where
  "screen_loop ovf bts lv [] = (LoopPending (ls_of lv), [])"
| "screen_loop ovf bts lv (st # sts) =
     (let (step, fr) = screen_iter ovf bts lv st;
          shown = (case fr of None \<Rightarrow> [] | Some rows \<Rightarrow> [rows])
      in case step of
           SNext lv' \<Rightarrow> (let (r, frs) = screen_loop ovf bts lv' sts in (r, shown @ frs))
         | SStop r \<Rightarrow> (r, shown))"

section \<open>Lemmas\<close>

lemma ls_of_initial [simp]: "ls_of initial_list_view = initial_list_state"
  by (simp add: ls_of_def initial_list_view_def initial_list_state_def)

lemma ls_of_with [simp]: "ls_of (with_list_state lv ls) = ls"
  by (simp add: ls_of_def with_list_state_def)

lemma ls_of_render:
  "ls_of (fst (list_render (get_names bts) (sc_width st) (sc_height st) lv)) =
     render_clamp (length (targets bts)) (area_ok (tick_of st)) (ls_of lv)"
proof -
  have "selected (render_clamp (length (targets bts)) (area_ok (tick_of st)) (ls_of lv)) =
      lv_selected (fst (list_render (get_names bts) (sc_width st) (sc_height st) lv))"
    using list_render_refines_clamp [of "get_names bts" "sc_width st" "sc_height st" lv]
    by (simp add: tick_of_def ls_of_def)
  then show ?thesis by (simp add: ls_of_def)
qed

text \<open>One iteration simulates one step of the loop model.\<close>

lemma screen_iter_sim:
  "(case fst (screen_iter ovf bts lv st) of
      SNext lv' \<Rightarrow> loop_iter ovf bts (ls_of lv) (tick_of st) = IterNext (ls_of lv')
    | SStop r \<Rightarrow> loop_iter ovf bts (ls_of lv) (tick_of st) = IterStop r)"
proof (cases "sc_draw_ok st")
  case False
  then show ?thesis by (simp add: screen_iter_def loop_iter_def tick_of_def)
next
  case True
  obtain lv1 rows where r: "list_render (get_names bts) (sc_width st) (sc_height st) lv = (lv1, rows)"
    by (cases "list_render (get_names bts) (sc_width st) (sc_height st) lv")
  have c: "render_clamp (length (targets bts)) (area_ok (tick_of st)) (ls_of lv) = ls_of lv1"
    using ls_of_render [of bts st lv] r by simp
  have d: "draw_ok (tick_of st)" "input (tick_of st) = sc_input st" using True by (simp_all add: tick_of_def)
  show ?thesis
    using True d
    by (simp add: screen_iter_def loop_iter_def r c Let_def
        split: poll_input.split event.split key_outcome.split)
qed

text \<open>A frame drawn with entries and a selection is empty (no inner area) or the rows of a window
  of the labels that holds the clamped selection, the selected row highlighted.\<close>

lemma screen_iter_frame_shape:
  assumes "targets bts \<noteq> []" and "length (targets bts) < 2 ^ 64" and "lv_selected lv \<noteq> None"
    and "snd (screen_iter ovf bts lv st) = Some fr"
  shows "fr = [] \<or> (\<exists>s f l. fr = map (\<lambda>i. (get_names bts ! i, Some s = Some (of_nat i :: usize))) [f..<l] \<and>
           unat s < length (targets bts) \<and> f \<le> unat s \<and> unat s < l \<and> l \<le> length (targets bts))"
proof -
  obtain iw ih where wh: "inner_size (sc_width st) (sc_height st) = (iw, ih)"
    by (cases "inner_size (sc_width st) (sc_height st)")
  have fr: "fr = snd (list_render (get_names bts) (sc_width st) (sc_height st) lv)"
    using assms(4) by (auto simp: screen_iter_def Let_def case_prod_beta split: if_splits)
  show ?thesis
  proof (cases "iw = 0 \<or> ih = 0")
    case True
    then show ?thesis using fr wh by (auto simp: list_render_def)
  next
    case False
    then have iw: "iw \<noteq> 0" and ih: "0 < ih" by simp_all
    obtain s0 where s0: "lv_selected lv = Some s0" using assms(3) by blast
    have ne: "get_names bts \<noteq> []" and len: "length (get_names bts) < 2 ^ 64"
      using assms(1,2) by (simp_all add: get_names_def)
    obtain s f l where r: "list_render (get_names bts) (sc_width st) (sc_height st) lv =
         (\<lparr>lv_selected = Some s, lv_offset = of_nat f\<rparr>,
          map (\<lambda>i. (get_names bts ! i, Some s = Some (of_nat i))) [f..<l])"
      and "s = (if of_nat (length (get_names bts)) \<le> s0
                then saturating_sub (of_nat (length (get_names bts))) 1 else s0)"
      and sn: "unat s < length (get_names bts)"
      and "(f, l) = window_ref (length (get_names bts)) (unat s) (unat (lv_offset lv)) ih"
      and win: "f \<le> unat s" "unat s < l" "l \<le> length (get_names bts)" "l - f \<le> ih"
      by (rule list_render_window [OF ne len wh iw ih s0])
    show ?thesis using fr r sn win by (intro disjI2 exI [of _ s] exI [of _ f] exI [of _ l]) simp
  qed
qed

text \<open>Such a frame highlights exactly one row, the label of an entry.\<close>

lemma screen_iter_frame:
  assumes "targets bts \<noteq> []" and "length (targets bts) < 2 ^ 64" and "lv_selected lv \<noteq> None"
    and "snd (screen_iter ovf bts lv st) = Some fr"
  shows "fr = [] \<or> (\<exists>s < length (targets bts). filter snd fr = [(get_names bts ! s, True)])"
  using screen_iter_frame_shape [OF assms]
proof
  assume "\<exists>s f l. fr = map (\<lambda>i. (get_names bts ! i, Some s = Some (of_nat i :: usize))) [f..<l] \<and>
           unat s < length (targets bts) \<and> f \<le> unat s \<and> unat s < l \<and> l \<le> length (targets bts)"
  then obtain s f l where fr: "fr = map (\<lambda>i. (get_names bts ! i, Some s = Some (of_nat i :: usize))) [f..<l]"
    and sn: "unat s < length (get_names bts)" and win: "f \<le> unat s" "unat s < l" "l \<le> length (get_names bts)"
    by auto
  have "filter snd fr = [(get_names bts ! unat s, True)]"
    using fr window_highlight [OF sn _ win] assms(2) by simp
  then show ?thesis using sn by auto
qed simp

lemma screen_iter_keeps_Some:
  assumes "targets bts \<noteq> []" and "lv_selected lv \<noteq> None" and "fst (screen_iter ovf bts lv st) = SNext lv'"
  shows "lv_selected lv' \<noteq> None"
proof -
  have "loop_iter ovf bts (ls_of lv) (tick_of st) = IterNext (ls_of lv')"
    using screen_iter_sim [of ovf bts lv st] assms(3) by simp
  moreover have "selected (ls_of lv) \<noteq> None" using assms(2) by (simp add: ls_of_def)
  ultimately have "selected (ls_of lv') \<noteq> None" using assms(1) loop_iter_keeps_Some by blast
  then show ?thesis by (simp add: ls_of_def)
qed

text \<open>A property every frame of one iteration has, from a state with a selection, holds of every
  frame the loop shows: the loop keeps a selection on a non-empty catalog.\<close>

lemma screen_loop_frames_inv:
  assumes "targets bts \<noteq> []"
    and "\<And>lv st fr. lv_selected lv \<noteq> None \<Longrightarrow> snd (screen_iter ovf bts lv st) = Some fr \<Longrightarrow> P fr"
    and "lv_selected lv \<noteq> None"
  shows "\<forall>fr \<in> set (snd (screen_loop ovf bts lv sts)). P fr"
  using assms(3)
proof (induction sts arbitrary: lv)
  case Nil
  then show ?case by simp
next
  case (Cons st sts)
  obtain step fo where e: "screen_iter ovf bts lv st = (step, fo)" by (cases "screen_iter ovf bts lv st")
  have shown: "\<forall>fr \<in> set (case fo of None \<Rightarrow> [] | Some rows \<Rightarrow> [rows]). P fr"
    using assms(2) [OF Cons.prems, of st] e by (simp split: option.split)
  show ?case
  proof (cases step)
    case (SNext lv')
    have "lv_selected lv' \<noteq> None" using screen_iter_keeps_Some [OF assms(1) Cons.prems, of ovf st lv'] e SNext by simp
    then have "\<forall>fr \<in> set (snd (screen_loop ovf bts lv' sts)). P fr" by (rule Cons.IH)
    then show ?thesis using shown e SNext by (simp add: case_prod_beta, blast)
  next
    case (SStop r)
    then show ?thesis using shown e by simp
  qed
qed

lemma map_nth_upt_window: "l \<le> length xs \<Longrightarrow> map (\<lambda>i. xs ! i) [f..<l] = take (l - f) (drop f xs)"
  by (rule nth_equalityI) (simp_all add: add.commute)

text \<open>Such a frame lists consecutive labels, in catalog order.\<close>

lemma screen_iter_frame_window:
  assumes "targets bts \<noteq> []" and "length (targets bts) < 2 ^ 64" and "lv_selected lv \<noteq> None"
    and "snd (screen_iter ovf bts lv st) = Some fr"
  shows "\<exists>f. f + length fr \<le> length (targets bts) \<and> map fst fr = take (length fr) (drop f (get_names bts))"
  using screen_iter_frame_shape [OF assms]
proof
  assume "fr = []"
  then show ?thesis by (intro exI [of _ 0]) simp
next
  assume "\<exists>s f l. fr = map (\<lambda>i. (get_names bts ! i, Some s = Some (of_nat i :: usize))) [f..<l] \<and>
           unat s < length (targets bts) \<and> f \<le> unat s \<and> unat s < l \<and> l \<le> length (targets bts)"
  then obtain s f l where fr: "fr = map (\<lambda>i. (get_names bts ! i, Some s = Some (of_nat i :: usize))) [f..<l]"
    and fl: "f \<le> unat s" "unat s < l" and l: "l \<le> length (get_names bts)" by auto
  have "map fst fr = map (\<lambda>i. get_names bts ! i) [f..<l]" using fr by simp
  also have "\<dots> = take (l - f) (drop f (get_names bts))" using l by (rule map_nth_upt_window)
  finally show ?thesis using fr fl l by (intro exI [of _ f]) simp
qed

section \<open>Claims\<close>

text \<open>C18: The drawn loop refines the loop model: forgetting the scroll offset and the frames shown,
  and abstracting each frame size to whether the list's inner area is empty, its result is the
  loop model's on the same trace.\<close>

theorem screen_loop_refines:
  "fst (screen_loop ovf bts lv sts) = tui_loop ovf bts (ls_of lv) (map tick_of sts)"
proof (induction sts arbitrary: lv)
  case Nil
  then show ?case by simp
next
  case (Cons st sts)
  obtain step fr where e: "screen_iter ovf bts lv st = (step, fr)" by (cases "screen_iter ovf bts lv st")
  have sim: "case step of SNext lv' \<Rightarrow> loop_iter ovf bts (ls_of lv) (tick_of st) = IterNext (ls_of lv')
      | SStop r \<Rightarrow> loop_iter ovf bts (ls_of lv) (tick_of st) = IterStop r"
    using screen_iter_sim [of ovf bts lv st] e by simp
  show ?case
  proof (cases step)
    case (SNext lv')
    then show ?thesis using sim e Cons.IH [of lv'] by (simp add: case_prod_beta)
  next
    case (SStop r)
    then show ?thesis using sim e by simp
  qed
qed

text \<open>C19: On a non-empty catalog, with an entry selected at the start, every frame the loop shows
  either has no room for rows or highlights exactly one row, and that row is the label of an entry.\<close>

theorem screen_loop_frames_highlight:
  assumes "targets bts \<noteq> []" and "length (targets bts) < 2 ^ 64" and "lv_selected lv \<noteq> None"
  shows "\<forall>fr \<in> set (snd (screen_loop ovf bts lv sts)).
           fr = [] \<or> (\<exists>s < length (targets bts). filter snd fr = [(get_names bts ! s, True)])"
  using assms(1) screen_iter_frame [OF assms(1,2)] assms(3) by (rule screen_loop_frames_inv)

theorem screen_loop_frames_highlight_witness:
  "snd (screen_loop False
        \<lparr>targets = [\<lparr>target_id = 1, target_name = ''Linux''\<rparr>], current = None, next_boot = None\<rparr>
        initial_list_view
        [\<lparr>sc_draw_ok = True, sc_width = 20, sc_height = 5, sc_input = PollTimeout\<rparr>]) \<noteq> [] \<and>
   (hd (snd (screen_loop False \<lparr>targets = [\<lparr>target_id = 1, target_name = ''Linux''\<rparr>], current = None, next_boot = None\<rparr> initial_list_view [\<lparr>sc_draw_ok = True, sc_width = 20, sc_height = 5, sc_input = PollTimeout\<rparr>])) = [] \<or>
    (\<exists>s < 1. filter snd (hd (snd (screen_loop False \<lparr>targets = [\<lparr>target_id = 1, target_name = ''Linux''\<rparr>], current = None, next_boot = None\<rparr> initial_list_view [\<lparr>sc_draw_ok = True, sc_width = 20, sc_height = 5, sc_input = PollTimeout\<rparr>]))) =
       [(get_names \<lparr>targets = [\<lparr>target_id = 1, target_name = ''Linux''\<rparr>], current = None, next_boot = None\<rparr> ! s, True)]))"
proof -
  have ne: "snd (screen_loop False \<lparr>targets = [\<lparr>target_id = 1, target_name = ''Linux''\<rparr>], current = None, next_boot = None\<rparr> initial_list_view [\<lparr>sc_draw_ok = True, sc_width = 20, sc_height = 5, sc_input = PollTimeout\<rparr>]) \<noteq> []"
    by (simp add: screen_iter_def Let_def case_prod_beta)
  then have "hd (snd (screen_loop False \<lparr>targets = [\<lparr>target_id = 1, target_name = ''Linux''\<rparr>], current = None, next_boot = None\<rparr> initial_list_view [\<lparr>sc_draw_ok = True, sc_width = 20, sc_height = 5, sc_input = PollTimeout\<rparr>]))
      \<in> set (snd (screen_loop False \<lparr>targets = [\<lparr>target_id = 1, target_name = ''Linux''\<rparr>], current = None, next_boot = None\<rparr> initial_list_view [\<lparr>sc_draw_ok = True, sc_width = 20, sc_height = 5, sc_input = PollTimeout\<rparr>]))"
    by (rule hd_in_set)
  then show ?thesis
    using ne screen_loop_frames_highlight [of "\<lparr>targets = [\<lparr>target_id = 1, target_name = ''Linux''\<rparr>], current = None, next_boot = None\<rparr>" initial_list_view False "[\<lparr>sc_draw_ok = True, sc_width = 20, sc_height = 5, sc_input = PollTimeout\<rparr>]"]
    by (simp del: screen_loop.simps add: initial_list_view_def)
qed

text \<open>C20: On a non-empty catalog, with an entry selected at the start, every frame the loop shows
  lists consecutive row labels of the catalog, in catalog order, and no more than there are.\<close>

theorem screen_loop_frames_window:
  assumes "targets bts \<noteq> []" and "length (targets bts) < 2 ^ 64" and "lv_selected lv \<noteq> None"
  shows "\<forall>fr \<in> set (snd (screen_loop ovf bts lv sts)).
           \<exists>f. f + length fr \<le> length (targets bts) \<and> map fst fr = take (length fr) (drop f (get_names bts))"
  using assms(1) screen_iter_frame_window [OF assms(1,2)] assms(3) by (rule screen_loop_frames_inv)

theorem screen_loop_frames_window_witness:
  "snd (screen_loop False \<lparr>targets = [\<lparr>target_id = 1, target_name = ''Linux''\<rparr>], current = None, next_boot = None\<rparr> initial_list_view [\<lparr>sc_draw_ok = True, sc_width = 20, sc_height = 5, sc_input = PollTimeout\<rparr>]) \<noteq> [] \<and>
   (\<exists>f. f + length (hd (snd (screen_loop False \<lparr>targets = [\<lparr>target_id = 1, target_name = ''Linux''\<rparr>], current = None, next_boot = None\<rparr> initial_list_view [\<lparr>sc_draw_ok = True, sc_width = 20, sc_height = 5, sc_input = PollTimeout\<rparr>]))) \<le> 1 \<and>
      map fst (hd (snd (screen_loop False \<lparr>targets = [\<lparr>target_id = 1, target_name = ''Linux''\<rparr>], current = None, next_boot = None\<rparr> initial_list_view [\<lparr>sc_draw_ok = True, sc_width = 20, sc_height = 5, sc_input = PollTimeout\<rparr>]))) =
        take (length (hd (snd (screen_loop False \<lparr>targets = [\<lparr>target_id = 1, target_name = ''Linux''\<rparr>], current = None, next_boot = None\<rparr> initial_list_view [\<lparr>sc_draw_ok = True, sc_width = 20, sc_height = 5, sc_input = PollTimeout\<rparr>]))))
          (drop f (get_names \<lparr>targets = [\<lparr>target_id = 1, target_name = ''Linux''\<rparr>], current = None, next_boot = None\<rparr>)))"
proof -
  have ne: "snd (screen_loop False \<lparr>targets = [\<lparr>target_id = 1, target_name = ''Linux''\<rparr>], current = None, next_boot = None\<rparr> initial_list_view [\<lparr>sc_draw_ok = True, sc_width = 20, sc_height = 5, sc_input = PollTimeout\<rparr>]) \<noteq> []"
    by (simp add: screen_iter_def Let_def case_prod_beta)
  then have "hd (snd (screen_loop False \<lparr>targets = [\<lparr>target_id = 1, target_name = ''Linux''\<rparr>], current = None, next_boot = None\<rparr> initial_list_view [\<lparr>sc_draw_ok = True, sc_width = 20, sc_height = 5, sc_input = PollTimeout\<rparr>]))
      \<in> set (snd (screen_loop False \<lparr>targets = [\<lparr>target_id = 1, target_name = ''Linux''\<rparr>], current = None, next_boot = None\<rparr> initial_list_view [\<lparr>sc_draw_ok = True, sc_width = 20, sc_height = 5, sc_input = PollTimeout\<rparr>]))"
    by (rule hd_in_set)
  then show ?thesis
    using ne screen_loop_frames_window [of "\<lparr>targets = [\<lparr>target_id = 1, target_name = ''Linux''\<rparr>], current = None, next_boot = None\<rparr>" initial_list_view False "[\<lparr>sc_draw_ok = True, sc_width = 20, sc_height = 5, sc_input = PollTimeout\<rparr>]"]
    by (simp del: screen_loop.simps add: initial_list_view_def)
qed

end
