(* ===== verification/RegexSpec.thy ===== *)
theory RegexSpec
  imports RegexIter
begin

text \<open>
  A declarative semantics of the regex fragment of \<open>Regex\<close>, written the way the
  crate's documentation describes a match rather than the way the engine searches:
  \<open>steps c t i n j\<close> says that \<open>n\<close> code points of class \<open>c\<close> lead from
  position \<open>i\<close> to \<open>j\<close>, and \<open>rmatch r t i j\<close> that the regex \<open>r\<close> matches the text
  \<open>t\<close> from \<open>i\<close> to \<open>j\<close>. The lemma \<open>mt_rmatch\<close> shows that the priority-ordered
  match list \<open>mt\<close> lists exactly the declarative matches (priority order and
  captures aside); the claims lift this to the leftmost-first search \<open>find_at\<close>
  that \<open>captures_iter\<close> is built on (\<open>src/src/main.rs\<close>, lines 126-129, 138, 147).
\<close>

inductive steps :: "cls \<Rightarrow> bytes \<Rightarrow> nat \<Rightarrow> nat \<Rightarrow> nat \<Rightarrow> bool" where
  steps_zero: "steps c t i 0 i"
| steps_step: "cls_len c (drop i t) = k \<Longrightarrow> 0 < k \<Longrightarrow> steps c t (i + k) n j \<Longrightarrow> steps c t i (Suc n) j"

inductive rmatch :: "regex \<Rightarrow> bytes \<Rightarrow> nat \<Rightarrow> nat \<Rightarrow> bool" where
  rm_line_start: "i = 0 \<or> (i \<le> length t \<and> t ! (i - 1) = newline) \<Longrightarrow> rmatch LineStart t i i"
| rm_line_end: "i = length t \<or> (i < length t \<and> t ! i = newline) \<Longrightarrow> rmatch LineEnd t i i"
| rm_one: "cls_len c (drop i t) = k \<Longrightarrow> 0 < k \<Longrightarrow> rmatch (One c) t i (i + k)"
| rm_rep: "steps c t i n j \<Longrightarrow> m \<le> n \<Longrightarrow> rmatch (Rep c m g) t i j"
| rm_group: "rmatch r t i j \<Longrightarrow> rmatch (Group k r) t i j"
| rm_cat: "rmatch r1 t i j \<Longrightarrow> rmatch r2 t j l \<Longrightarrow> rmatch (Cat r1 r2) t i l"

inductive_cases rmatch_LineStartE [elim!]: "rmatch LineStart t i j"
inductive_cases rmatch_LineEndE [elim!]: "rmatch LineEnd t i j"
inductive_cases rmatch_OneE [elim!]: "rmatch (One c) t i j"
inductive_cases rmatch_RepE [elim!]: "rmatch (Rep c m g) t i j"
inductive_cases rmatch_GroupE [elim!]: "rmatch (Group k r) t i j"
inductive_cases rmatch_CatE [elim!]: "rmatch (Cat r1 r2) t i j"
inductive_cases steps_ZeroE [elim!]: "steps c t i 0 j"
inductive_cases steps_SucE [elim!]: "steps c t i (Suc n) j"

lemma reps_unfold:
  "reps c t i = (if cls_len c (drop i t) = 0 then [] else (i + cls_len c (drop i t)) # reps c t (i + cls_len c (drop i t)))"
proof -
  have "\<not> length t < i + cls_len c (drop i t)" if "cls_len c (drop i t) \<noteq> 0"
    using cls_len_le [of c "drop i t"] that by simp
  then show ?thesis by (subst reps.simps) (auto simp: Let_def)
qed

lemma steps_reps:
  "steps c t i n j \<longleftrightarrow> n < length (i # reps c t i) \<and> (i # reps c t i) ! n = j"
proof (induction c t i arbitrary: n rule: reps.induct)
  case (1 c t i)
  let ?k = "cls_len c (drop i t)"
  show ?case
  proof (cases n)
    case 0
    then show ?thesis by (auto intro: steps_zero)
  next
    case (Suc n')
    show ?thesis
    proof (cases "?k = 0")
      case True
      then show ?thesis using Suc by (auto simp: reps_unfold [of c t i])
    next
      case False
      have ih: "steps c t (i + ?k) n' j \<longleftrightarrow>
          n' < length ((i + ?k) # reps c t (i + ?k)) \<and> ((i + ?k) # reps c t (i + ?k)) ! n' = j"
        using "1.IH" [OF refl] False cls_len_le [of c "drop i t"] by simp
      have "steps c t i (Suc n') j \<longleftrightarrow> steps c t (i + ?k) n' j"
        using False by (auto intro: steps_step)
      then show ?thesis using Suc ih False by (simp add: reps_unfold [of c t i])
    qed
  qed
qed

lemma in_set_drop_nth: "j \<in> set (drop m xs) \<longleftrightarrow> (\<exists>n. m \<le> n \<and> n < length xs \<and> xs ! n = j)"
proof
  assume "j \<in> set (drop m xs)"
  then obtain q where "q < length xs - m" "drop m xs ! q = j" by (auto simp: in_set_conv_nth)
  then show "\<exists>n. m \<le> n \<and> n < length xs \<and> xs ! n = j" by (intro exI [of _ "m + q"]) simp
next
  assume "\<exists>n. m \<le> n \<and> n < length xs \<and> xs ! n = j"
  then obtain n where n: "m \<le> n" "n < length xs" "xs ! n = j" by blast
  then have "drop m xs ! (n - m) = j" "n - m < length (drop m xs)" by simp_all
  then show "j \<in> set (drop m xs)" by (metis nth_mem)
qed

lemma mt_rmatch: "(\<exists>cs'. (j, cs') \<in> set (mt r t i cs)) \<longleftrightarrow> rmatch r t i j"
proof (induction r arbitrary: i j cs)
  case LineStart
  then show ?case by (auto intro: rm_line_start)
next
  case LineEnd
  then show ?case by (auto intro: rm_line_end)
next
  case (One c)
  then show ?case by (auto simp: Let_def intro: rm_one)
next
  case (Rep c m g)
  have "j \<in> set (drop m (i # reps c t i)) \<longleftrightarrow> (\<exists>n \<ge> m. steps c t i n j)"
    by (simp only: in_set_drop_nth steps_reps)
  moreover have "(\<exists>cs'. (j, cs') \<in> set (mt (Rep c m g) t i cs)) \<longleftrightarrow> j \<in> set (drop m (i # reps c t i))"
    by (auto simp: Let_def)
  moreover have "rmatch (Rep c m g) t i j \<longleftrightarrow> (\<exists>n \<ge> m. steps c t i n j)"
    by (auto intro: rm_rep)
  ultimately show ?case by simp
next
  case (Group k r)
  have "(\<exists>cs'. (j, cs') \<in> set (mt (Group k r) t i cs)) \<longleftrightarrow> (\<exists>cs0. (j, cs0) \<in> set (mt r t i cs))"
    by force
  also have "\<dots> \<longleftrightarrow> rmatch r t i j" by (rule Group.IH)
  also have "\<dots> \<longleftrightarrow> rmatch (Group k r) t i j" by (auto intro: rm_group)
  finally show ?case .
next
  case (Cat r1 r2)
  show ?case
  proof
    assume "\<exists>cs'. (j, cs') \<in> set (mt (Cat r1 r2) t i cs)"
    then obtain cs' j1 cs1 where m1: "(j1, cs1) \<in> set (mt r1 t i cs)" and m2: "(j, cs') \<in> set (mt r2 t j1 cs1)"
      by auto
    have "rmatch r1 t i j1" using Cat.IH(1) m1 by blast
    moreover have "rmatch r2 t j1 j" using Cat.IH(2) m2 by blast
    ultimately show "rmatch (Cat r1 r2) t i j" by (rule rm_cat)
  next
    assume "rmatch (Cat r1 r2) t i j"
    then obtain j1 where r1: "rmatch r1 t i j1" and r2: "rmatch r2 t j1 j" by blast
    obtain cs1 where m1: "(j1, cs1) \<in> set (mt r1 t i cs)" using Cat.IH(1) r1 by blast
    obtain cs' where m2: "(j, cs') \<in> set (mt r2 t j1 cs1)" using Cat.IH(2) r2 by blast
    have "(j, cs') \<in> set (mt (Cat r1 r2) t i cs)" using m1 m2 by force
    then show "\<exists>cs'. (j, cs') \<in> set (mt (Cat r1 r2) t i cs)" by blast
  qed
qed

lemma find_at_empty_no_rmatch: "mt r t k Map.empty = [] \<Longrightarrow> \<not> rmatch r t k j"
  using mt_rmatch [of j r t k Map.empty] by simp

text \<open>C27: When the leftmost-first search from i reports a match from s to e, the regex matches the
  text from s to e in the declarative semantics, s is at or after i, and no position from i
  up to s starts a match of the regex.\<close>

theorem find_at_rmatch:
  "find_at r t i = Some (s, e, cs) \<Longrightarrow>
     i \<le> s \<and> rmatch r t s e \<and> (\<forall>k j. i \<le> k \<and> k < s \<longrightarrow> \<not> rmatch r t k j)"
proof -
  assume "find_at r t i = Some (s, e, cs)"
  then have f: "i \<le> s" "hd (mt r t s Map.empty) = (e, cs)" "mt r t s Map.empty \<noteq> []"
    "\<forall>k. i \<le> k \<and> k < s \<longrightarrow> mt r t k Map.empty = []"
    using find_at_Some by blast+
  have "(e, cs) \<in> set (mt r t s Map.empty)" using f(2,3) by (metis list.set_sel(1))
  then have "rmatch r t s e" using mt_rmatch [of e r t s Map.empty] by blast
  moreover have "\<forall>k j. i \<le> k \<and> k < s \<longrightarrow> \<not> rmatch r t k j"
    using f(4) find_at_empty_no_rmatch by blast
  ultimately show ?thesis using f(1) by blast
qed

theorem find_at_rmatch_witness:
  "find_at (One (Lit (CHR ''x''))) ''ax'' 0 = Some (1, 2, Map.empty) \<and>
   rmatch (One (Lit (CHR ''x''))) ''ax'' 1 2 \<and> \<not> rmatch (One (Lit (CHR ''x''))) ''ax'' 0 1"
proof -
  have f: "find_at (One (Lit (CHR ''x''))) ''ax'' 0 = Some (1, 2, Map.empty)"
    by (subst find_at.simps, simp)+
  show ?thesis using find_at_rmatch [OF f] f by simp
qed

text \<open>C28: When the leftmost-first search from i reports no match, the regex matches, in the
  declarative semantics, at no position from i to the end of the text.\<close>

theorem find_at_None_no_rmatch:
  "find_at r t i = None \<Longrightarrow> i \<le> k \<Longrightarrow> k \<le> length t \<Longrightarrow> \<not> rmatch r t k j"
  using find_at_None find_at_empty_no_rmatch by blast

theorem find_at_None_no_rmatch_witness:
  "find_at (One (Lit (CHR ''x''))) ''ab'' 0 = None \<and> \<not> rmatch (One (Lit (CHR ''x''))) ''ab'' 1 1"
proof -
  have f: "find_at (One (Lit (CHR ''x''))) ''ab'' 0 = None"
    by (subst find_at.simps, simp)+
  show ?thesis using find_at_None_no_rmatch [OF f, of 1 1] f by simp
qed

text \<open>C29: Every match that captures_iter reports is a match of the regex in the declarative
  semantics, over the span it records as group 0.\<close>

theorem captures_iter_rmatch:
  assumes "x \<in> set (captures_iter r t)"
  shows "rmatch r t (fst (span0 x)) (snd (span0 x))"
proof -
  obtain s e cs l where x: "x = cs(0 \<mapsto> (s, e))" and m: "mt r t s Map.empty = (e, cs) # l"
    using captures_iter_match [OF assms] by blast
  have "(e, cs) \<in> set (mt r t s Map.empty)" using m by simp
  then have "rmatch r t s e" using mt_rmatch [of e r t s Map.empty] by blast
  then show ?thesis using x by (simp add: span0_def)
qed

theorem captures_iter_rmatch_witness:
  "captures_iter (One (Lit (CHR ''x''))) ''ax'' = [Map.empty(0 \<mapsto> (1, 2))] \<and>
   rmatch (One (Lit (CHR ''x''))) ''ax'' 1 2"
proof -
  have c: "captures_iter (One (Lit (CHR ''x''))) ''ax'' = [Map.empty(0 \<mapsto> (1, 2))]"
    by (simp add: captures_iter_def captures_step.simps find_at.simps next_pos_def numeral_2_eq_2)
  have "rmatch (One (Lit (CHR ''x''))) ''ax'' (fst (span0 (Map.empty(0 \<mapsto> (1, 2))))) (snd (span0 (Map.empty(0 \<mapsto> (1, 2)))))"
    by (rule captures_iter_rmatch) (simp add: c)
  then show ?thesis using c by (simp add: span0_def)
qed

end
