(* ===== verification/Spec2Isabelle.thy ===== *)
theory Spec2Isabelle
  imports Cli Screen RegexSpec
begin

text \<open>
  \<^bold>\<open>reboot-to: a verification development.\<close>

  The program (\<open>src/src/main.rs\<close>, one file) lists the machine's UEFI boot
  entries and sets the entry for the next boot, optionally rebooting into it.
  It runs \<open>efibootmgr\<close>, parses its output into a catalog of boot targets
  (\<open>parse_boot_targets\<close>), and then, depending on the command line, prints the
  catalog (\<open>--list\<close>), resolves a specifier and acts on it (\<open>--reboot-to\<close>,
  \<open>--next\<close>), or runs an interactive list in the terminal
  (\<open>tui_selection\<close>) whose chosen action is dispatched when it ends.

  \<^bold>\<open>Theories and what they model.\<close>
  \<^item> \<open>Prelude\<close>: machine types (\<open>u16 = 16 word\<close>, \<open>usize = 64 word\<close>), text as
    UTF-8 bytes (\<open>bytes = string\<close>), the \<open>model_simps\<close> collection and generic
    lemmas on lists and words.
  \<^item> \<open>RustStd\<close>: the standard-library behaviour the code relies on, translated
    from the library's definition: \<open>u16::from_str\<close> (\<open>parse_u16\<close>, optional
    \<open>+\<close>, checked arithmetic), \<open>Display\<close> of integers (\<open>dec_str\<close>,
    \<open>int_str\<close>), \<open>{:0>4}\<close> padding (\<open>pad_zero_left\<close>), \<open>str::starts_with\<close>,
    saturating \<open>usize\<close> arithmetic. Lemmas: printing then parsing gives the
    number back, also after zero padding.
  \<^item> \<open>Regex\<close>: the part of the \<open>regex\<close> crate the parser calls: a datatype of the
    two patterns' constructs, all matches at a position in backtracking
    priority order (\<open>mt\<close>) and the leftmost-first search (\<open>find_at\<close>).
    Lemmas: matches stay in the text; the search is leftmost-first (an iff
    characterisation).
  \<^item> \<open>RegexIter\<close>: \<open>captures_iter\<close> (\<open>captures_step\<close>), the loop of successive
    non-overlapping searches. It has no guard of its own: it ends when a search
    finds nothing, and its termination proof rests on the search never reporting a
    match before its start. Lemmas: the matches are ordered, do not overlap, and
    are at most one more than the text's length.
  \<^item> \<open>RegexSpec\<close>: a declarative semantics of the same fragment as inductive
    predicates (\<open>steps\<close>, \<open>rmatch\<close>), independent of the engine. Lemmas: the
    engine's match list holds exactly the declarative matches (\<open>mt_rmatch\<close>, by
    induction on the regex); the search reports a declarative match and none
    starts earlier, and when it reports nothing no position of the text starts one;
    every match of \<open>captures_iter\<close> is a declarative match.
  \<^item> \<open>Utf8\<close>: well-formed UTF-8 as \<open>String::from_utf8\<close> checks it
    (\<open>utf8_valid\<close>, Unicode Table 3-7) and the code point boundary facts the
    regex proofs need.
  \<^item> \<open>Parser\<close> (EntryParser, lines 125-162): the records \<open>boot_target\<close> and
    \<open>boot_targets\<close>, the two patterns, one definition per loop body
    (\<open>option_step\<close>, \<open>target_step\<close>) and the parser as two folds. Lemmas: the
    targets are exactly the matched lines with a u16 identifier, in order; the
    later annotation line wins, an unparsable value defaults to 1.
  \<^item> \<open>TargetNames\<close>: on well-formed UTF-8, the names the target pattern
    captures hold no tab and no line feed; the proof follows the engine's first
    match through the pattern's lazy group.
  \<^item> \<open>Catalog\<close> (EntryMatcher and the row labels, lines 90-123): \<open>get_names\<close>,
    \<open>lookup\<close> (a u16 specifier selects by identifier, any other by name
    prefix, first match wins), the \<open>--list\<close> line. Lemmas: characterisations
    of \<open>lookup\<close> on both branches and on its edge inputs.
  \<^item> \<open>Dispatch\<close> (ActionDispatcher, lines 173-215 and 348-352): external
    commands are an environment from program and arguments to a launch error or
    an exit status; effects are the list of events (commands run, lines printed).
    Lemmas: the commands each branch runs, in order; the identifier argument
    round-trips; a non-zero exit of \<open>efibootmgr\<close> does not stop the reboot.
  \<^item> \<open>ListState\<close>: the ratatui 0.28 \<open>ListState\<close> operations and the selection
    correction of \<open>List::render\<close>, from the library's source.
  \<^item> \<open>Render\<close>: the drawing of the list, lines 235-268: the bordered block's
    inner area, \<open>List::render\<close> with its scroll offset (\<open>get_items_bounds\<close>, loop
    by loop) and the rows it draws. Lemmas: the loops compute a reference window;
    the selected entry is always drawn and is the only highlighted row; the selection
    part refines to \<open>render_clamp\<close> of the loop model.
  \<^item> \<open>Screen\<close>: the interactive loop with the drawing in place (lines 230-341): the
    loop keeps the whole \<open>ListState\<close> (\<open>list_view\<close>), each iteration
    (\<open>screen_iter\<close>) draws the list into the frame size of that moment and then
    handles the input with \<open>handle_key\<close>; \<open>screen_loop\<close> returns the result and
    the frames shown. Lemmas: one iteration simulates \<open>loop_iter\<close>, so the loop
    refines \<open>tui_loop\<close> under the abstraction that forgets offset and frames; every
    frame shown highlights exactly one row and lists consecutive labels in order.
  \<^item> \<open>Selection\<close> (SelectionController, lines 218-355): one key press
    (\<open>handle_key\<close>), one loop iteration (\<open>loop_iter\<close>), the loop over a finite
    trace of environment ticks (\<open>tui_loop\<close>), terminal setup and cleanup
    (\<open>tui_selection\<close>). The step relation \<open>loop_reach\<close> gives the reachable
    list states. Lemmas: refinement of the cyclic navigation the specification
    asks for, Enter and the quit keys, the panic of Down on an empty list in a
    debug build, the terminal left in raw mode after an I/O error.
  \<^item> \<open>Cli\<close> (\<open>get_boot_targets\<close> and \<open>main\<close>, lines 46-68, 164-171, 357-400):
    the resolved arguments, the UTF-8 check of the listing, and the dispatch on
    the flags. Lemmas: exit status and events of each branch; every run lists the
    entries first and then runs at most two commands, each efibootmgr or shutdown.
  This theory holds the specification's end-to-end example and parser examples,
  evaluated on their fixed inputs as checks of the model, and the property that
  spans components: an identifier printed by \<open>--list\<close> selects an entry with
  that identifier.

  \<^bold>\<open>Environment, traces and bounds.\<close> The interactive loop never ends on its
  own; it is run over a finite list of ticks (drawing succeeded, the list had an
  area, what polling returned), and a trace that ends first leaves it
  \<open>LoopPending\<close>: claims that the loop ends are claims about a trace that
  contains the ending key. No fuel is needed elsewhere: the regex search and
  iteration terminate by the measure \<open>length t - i\<close>. The build profile
  matters once: \<open>item_count - 1\<close> on an empty list panics under overflow checks
  and wraps otherwise (flag \<open>ovf\<close>).

  \<^bold>\<open>Not modelled.\<close> Argument parsing by clap, a library the program only
  calls and which the specification (section 1) treats as external: the model
  starts from the resolved \<open>Arguments\<close> (\<open>main_prog\<close> takes them as input); colours, borders, titles and the clipping of long
  labels by ratatui and crossterm, which only affect the screen (the loop model
  keeps whether drawing failed and whether the list had an area; \<open>Render\<close> adds
  the offset and the rows drawn, for a frame size given as input);
  the processes run, which are an environment; the regex crate beyond the two
  patterns the code compiles.
\<close>

text \<open>The listing of the specification's end-to-end example, as efibootmgr prints it.\<close>

definition spec_listing :: bytes where
  "spec_listing =
     ''BootCurrent: 0\<newline>BootNext: 2\<newline>'' @
     ''Boot0000* Linux'' @ [tab] @ ''HD(1,GPT)\<newline>'' @
     ''Boot0001* Windows Boot Manager'' @ [tab] @ ''HD(1,GPT)\<newline>'' @
     ''Boot0002* Linux'' @ [tab] @ ''HD(2,GPT)\<newline>''"

section \<open>The specification's examples, evaluated\<close>

text \<open>On the specification's end-to-end example (BootCurrent 0, BootNext 2, entries 0, 1, 2 named Linux,
  Windows Boot Manager, Linux), the row labels are cur: Linux, five spaces and Windows Boot Manager, nxt: Linux.\<close>

theorem spec_example_labels:
  "get_names (parse_boot_targets spec_listing) =
     [''cur: Linux'', ''     Windows Boot Manager'', ''nxt: Linux'']"
  by (simp add: spec_listing_def parse_eval get_names_def entry_label_def)

text \<open>The specification's parser examples: BootCurrent 3 and BootNext 0007 give current 3 and next 7 and no
  targets; an unparsable BootCurrent value abc gives 1; a missing key leaves its field None.\<close>

theorem spec_annotation_examples:
  "parse_boot_targets ''BootCurrent: 3\<newline>BootNext: 0007\<newline>'' =
     \<lparr>targets = [], current = Some 3, next_boot = Some 7\<rparr> \<and>
   current (parse_boot_targets ''BootCurrent: abc'') = Some 1 \<and>
   next_boot (parse_boot_targets ''BootCurrent: abc'') = None"
  by (simp add: parse_eval)

section \<open>Properties across components\<close>

text \<open>C30: Giving the identifier printed at the start of a --list line back as a specifier selects the first
  target with that identifier, so a listed entry can always be selected by its identifier.\<close>

theorem listed_id_resolves:
  assumes "t \<in> set (targets bts)"
  shows "lookup bts (takeWhile (\<lambda>c. c \<noteq> CHR '' '') (list_line t)) =
           find (\<lambda>u. target_id u = target_id t) (targets bts) \<and>
         (\<exists>u. lookup bts (takeWhile (\<lambda>c. c \<noteq> CHR '' '') (list_line t)) = Some u \<and>
              target_id u = target_id t)"
proof -
  let ?P = "\<lambda>u. target_id u = target_id t"
  have l: "lookup bts (takeWhile (\<lambda>c. c \<noteq> CHR '' '') (list_line t)) = find ?P (targets bts)"
    by (simp add: lookup_def list_line_id_parses)
  have "find ?P (targets bts) \<noteq> None" using assms by (auto simp: find_None_iff')
  then obtain u where u: "find ?P (targets bts) = Some u" by blast
  then have "?P u" by (simp add: find_Some_iff) blast
  with l u show ?thesis by simp
qed

theorem listed_id_resolves_witness:
  "lookup \<lparr>targets = [\<lparr>target_id = 7, target_name = ''Linux''\<rparr>, \<lparr>target_id = 7, target_name = ''Other''\<rparr>],
           current = None, next_boot = None\<rparr>
     (takeWhile (\<lambda>c. c \<noteq> CHR '' '') (list_line \<lparr>target_id = 7, target_name = ''Other''\<rparr>)) =
   Some \<lparr>target_id = 7, target_name = ''Linux''\<rparr>"
proof -
  let ?b = "\<lparr>targets = [\<lparr>target_id = 7::u16, target_name = ''Linux''\<rparr>, \<lparr>target_id = 7, target_name = ''Other''\<rparr>],
           current = None, next_boot = None\<rparr>"
  let ?t = "\<lparr>target_id = 7::u16, target_name = ''Other''\<rparr>"
  have "?t \<in> set (targets ?b)" by simp
  then have "lookup ?b (takeWhile (\<lambda>c. c \<noteq> CHR '' '') (list_line ?t)) =
           find (\<lambda>u. target_id u = target_id ?t) (targets ?b)"
    using listed_id_resolves by blast
  then show ?thesis by simp
qed

end
